theory Spec2Isabelle
  imports Main "HOL-Library.Word"
begin

section \<open>Data model\<close>

text \<open>
  The program is one TypeScript file, \<^verbatim>\<open>verify-boc.ts\<close>. Its data types come from the
  libraries \<^verbatim>\<open>@ton/core\<close> and \<^verbatim>\<open>@ton/ton\<close>; they are written here as the program sees
  them. A cell is a bit string with an ordered list of child cells. A digest is the
  32-byte \<^verbatim>\<open>Buffer\<close> that \<^verbatim>\<open>Cell.hash()\<close> returns; \<^verbatim>\<open>Buffer.equals\<close> is equality
  of digests.
\<close>

datatype cell = Cell (bits: "bool list") (refs: "cell list")

type_synonym digest = "256 word"

record address =
  workChain :: int
  hashPart :: "256 word"

record external_address =
  ext_bits :: nat
  ext_number :: int

text \<open>The program never reads a \<^verbatim>\<open>StateInit\<close>; only its presence matters.\<close>

record state_init =
  code :: "cell option"
  data :: "cell option"

text \<open>
  \<^verbatim>\<open>CommonMessageInfo\<close> is a union tagged by its member \<^verbatim>\<open>type\<close>. An optional member
  (\<^verbatim>\<open>src?: Maybe<ExternalAddress>\<close>) is an \<open>option\<close>; \<^verbatim>\<open>bigint\<close> is \<open>int\<close>.
\<close>

datatype common_message_info =
    Internal (ihrDisabled: bool) (bounce: bool) (bounced: bool) (int_src: address)
      (dest: address) (coins: int) (ihrFee: int) (forwardFee: int)
      (createdLt: int) (createdAt: nat)
  | ExternalIn (src: "external_address option") (dest: address) (importFee: int)
  | ExternalOut (out_src: address) (out_dest: "external_address option")
      (createdLt: int) (createdAt: nat)

text \<open>The tag \<^verbatim>\<open>info.type\<close> of each variant.\<close>

fun info_type :: "common_message_info \<Rightarrow> string" where
  "info_type (Internal _ _ _ _ _ _ _ _ _ _) = ''internal''"
| "info_type (ExternalIn _ _ _) = ''external-in''"
| "info_type (ExternalOut _ _ _ _) = ''external-out''"

record message =
  info :: common_message_info
  init :: "state_init option"
  body :: cell

text \<open>
  A value caught by \<^verbatim>\<open>catch\<close>: an \<^verbatim>\<open>Error\<close> object with its message, or any other
  thrown value, kept as the text \<^verbatim>\<open>String(error)\<close> gives.
\<close>

datatype js_error = Error string | Thrown string

section \<open>The library \<^verbatim>\<open>@ton/core\<close>\<close>

text \<open>
  The functions of \<^verbatim>\<open>@ton/core\<close> that the program calls are parameters of the model.
  \<open>fromBase64\<close> is \<^verbatim>\<open>Cell.fromBase64\<close> and \<open>loadMessage c\<close> is
  \<^verbatim>\<open>loadMessage(c.beginParse())\<close>; both may throw. \<open>beginCell\<close> is a fresh builder,
  \<open>storeMessage m forceRef\<close> is the writer \<^verbatim>\<open>storeMessage(m, { forceRef })\<close> that
  \<^verbatim>\<open>Builder.store\<close> applies to a builder, \<open>endCell\<close> closes a builder and
  \<open>cell_hash\<close> is \<^verbatim>\<open>Cell.hash()\<close>.
\<close>

record 'b ton_core =
  fromBase64 :: "string \<Rightarrow> js_error + cell"
  loadMessage :: "cell \<Rightarrow> js_error + message"
  beginCell :: 'b
  storeMessage :: "message \<Rightarrow> bool \<Rightarrow> 'b \<Rightarrow> 'b"
  endCell :: "'b \<Rightarrow> cell"
  cell_hash :: "cell \<Rightarrow> digest"

section \<open>The normalized hash (TEP-467)\<close>

text \<open>
  \<^verbatim>\<open>getNormalizedExtMessageHash\<close>, lines 34-55. The guard throws for every variant but
  external-in. The two object spreads build new objects: \<open>info'\<close> copies the members
  of \<^verbatim>\<open>message.info\<close> and overrides \<^verbatim>\<open>src\<close> and \<^verbatim>\<open>importFee\<close>;
  \<open>normalizedMessage\<close> copies the members of \<^verbatim>\<open>message\<close> and overrides \<^verbatim>\<open>init\<close>
  and \<^verbatim>\<open>info\<close>.
\<close>

definition getNormalizedExtMessageHash :: "'b ton_core \<Rightarrow> message \<Rightarrow> js_error + digest" where
  \<open>getNormalizedExtMessageHash lib message =
    (case info message of
       ExternalIn s d f \<Rightarrow>
         (let info' = ExternalIn None d 0;
              normalizedMessage = message\<lparr>init := None, info := info'\<rparr>
          in Inr (cell_hash lib
                   (endCell lib (storeMessage lib normalizedMessage True (beginCell lib)))))
     | _ \<Rightarrow> Inl (Error (''Message must be "external-in", got '' @ info_type (info message))))\<close>

section \<open>Configuration and collaborators\<close>

text \<open>
  A JavaScript \<^verbatim>\<open>number\<close> that \<^verbatim>\<open>parseInt\<close> may return: an integer or \<^verbatim>\<open>NaN\<close>.
\<close>

datatype js_number = NaN | Num int

text \<open>
  \<^verbatim>\<open>Config\<close>, lines 19-25. The member \<^verbatim>\<open>network\<close> is declared as
  \<^verbatim>\<open>'mainnet' | 'testnet'\<close>, but \<^verbatim>\<open>parseArgs\<close> stores whatever follows
  \<^verbatim>\<open>--network\<close> through a type assertion, which checks nothing at run time: the
  member holds any string, or \<^verbatim>\<open>undefined\<close> (\<open>None\<close>) when the flag is the last
  argument. The same holds for \<^verbatim>\<open>apiKey\<close>.
\<close>

record config =
  boc :: string
  network :: "string option"
  apiKey :: "string option"
  limit :: js_number
  verbose :: bool

text \<open>
  \<^verbatim>\<open>ENDPOINTS\<close>, lines 27-30, is an object literal with two members of its own. The
  value of the property read \<^verbatim>\<open>ENDPOINTS[key]\<close> is a string for these two, and
  \<^verbatim>\<open>undefined\<close> for a key the object does not have. An object literal inherits
  from \<^verbatim>\<open>Object.prototype\<close>, so for the name of one of its members the read gives
  that inherited member, which is neither a string nor \<^verbatim>\<open>undefined\<close>.
\<close>

datatype js_value = Undefined | Str string | Inherited string

definition ENDPOINTS :: "(string \<times> string) list" where
  "ENDPOINTS =
     [(''mainnet'', ''https://toncenter.com/api/v2/jsonRPC''),
      (''testnet'', ''https://testnet.toncenter.com/api/v2/jsonRPC'')]"

definition Object_prototype :: "string list" where
  "Object_prototype =
     [''constructor'', ''hasOwnProperty'', ''isPrototypeOf'', ''propertyIsEnumerable'',
      ''toLocaleString'', ''toString'', ''valueOf'', ''__proto__'',
      ''__defineGetter__'', ''__defineSetter__'', ''__lookupGetter__'',
      ''__lookupSetter__'']"

definition endpoint_of :: "string option \<Rightarrow> js_value" where
  "endpoint_of key =
     (case key of
        None \<Rightarrow> Undefined
      | Some k \<Rightarrow>
          (case map_of ENDPOINTS k of
             Some url \<Rightarrow> Str url
           | None \<Rightarrow> if k \<in> set Object_prototype then Inherited k else Undefined))"

text \<open>
  A transaction as \<^verbatim>\<open>client.getTransactions\<close> returns it: the logical time (a 64-bit
  field), the Unix time \<^verbatim>\<open>now\<close> (a 32-bit field, so \<^verbatim>\<open>new Date(tx.now * 1000)\<close> is
  always a valid date), the optional inbound message, the values of the dictionary of
  outbound messages in its order, and the transaction's own hash \<^verbatim>\<open>tx.hash()\<close>.
\<close>

record transaction =
  lt :: "64 word"
  now :: "32 word"
  inMessage :: "message option"
  outMessages :: "message list"
  tx_hash :: digest

text \<open>
  \<^verbatim>\<open>new TonClient({ endpoint, apiKey })\<close> keeps its two parameters. The fetch
  collaborator \<^verbatim>\<open>client.getTransactions(address, { limit, archival })\<close> is a
  parameter of the model: it returns the list of transactions or throws.
\<close>

record ton_client =
  endpoint :: js_value
  client_apiKey :: "string option"

type_synonym fetch =
  "ton_client \<Rightarrow> address \<Rightarrow> js_number \<Rightarrow> bool \<Rightarrow> js_error + transaction list"

section \<open>What a run does\<close>

text \<open>
  A run is observed as the list of its effects in program order. A \<open>line\<close> is one
  call of \<^verbatim>\<open>console.log\<close> or \<^verbatim>\<open>console.error\<close>, one constructor per call site,
  carrying the values it prints; their formatting as text is left out. The other
  events are the calls that leave the function: the construction of the client, the
  fetch, and each call of \<^verbatim>\<open>getNormalizedExtMessageHash\<close> with its argument.
\<close>

datatype line =
    Usage
  | Banner
  | ParsingBoc
  | BocParsed
  | AddressLine address
  | CalculatingHash
  | HashLine digest
  | Connecting
  | NetworkLine "string option"
  | EndpointLine js_value
  | ApiKeyLine string
  | ApiKeyNone
  | Fetching js_number
  | FoundCount nat
  | NoTransactions
  | Searching
  | Candidate nat nat "64 word" "32 word"
  | Skipped
  | TransactionFound
  | Details
  | Position nat nat
  | LogicalTime "64 word"
  | CellHash digest
  | Timestamp "32 word"
  | Destination address
  | OutMessages nat
  | FirstOutDest address
  | Verified
  | NoMatch
  | NotFoundInLast js_number
  | TipsHeader
  | TipWait
  | TipLimit
  | TipNetwork
  | ErrorLine string
  | StackTrace

datatype event =
    Log line
  | LogError line
  | NewTonClient ton_client
  | GetTransactions ton_client address js_number bool
  | HashCall message

text \<open>\<^verbatim>\<open>if (config.verbose) console.log(...)\<close>.\<close>

definition vlog :: "config \<Rightarrow> line \<Rightarrow> event list" where
  "vlog config l = (if verbose config then [Log l] else [])"

text \<open>The events of a first part of a computation, before those of the rest.\<close>

fun prepend :: "event list \<Rightarrow> event list \<times> 'a \<Rightarrow> event list \<times> 'a" where
  "prepend es (t, r) = (es @ t, r)"

section \<open>The verifier\<close>

text \<open>
  Lines 184-200: the report of a match at index \<open>i\<close>. \<open>d\<close> is
  \<^verbatim>\<open>tx.inMessage.info.dest\<close>.
\<close>

definition found_report :: "nat \<Rightarrow> transaction list \<Rightarrow> transaction \<Rightarrow> address \<Rightarrow> event list" where
  "found_report i transactions tx d =
     [Log TransactionFound, Log Details, Log (Position (i + 1) (length transactions)),
      Log (LogicalTime (lt tx)), Log (CellHash (tx_hash tx)), Log (Timestamp (now tx)),
      Log (Destination d)] @
     (if length (outMessages tx) > 0
      then Log (OutMessages (length (outMessages tx))) #
           (case outMessages tx of
              firstOut # _ \<Rightarrow>
                (case info firstOut of
                   Internal _ _ _ _ fd _ _ _ _ _ \<Rightarrow> [Log (FirstOutDest fd)]
                 | _ \<Rightarrow> [])
            | [] \<Rightarrow> [])
      else []) @
     [Log Verified]"

text \<open>
  The search loop, lines 169-205, from index \<open>i\<close>. The result is \<open>Inr (Some True)\<close>
  for \<^verbatim>\<open>return true\<close>, \<open>Inr None\<close> when the loop ends without a return, and
  \<open>Inl e\<close> when \<^verbatim>\<open>getNormalizedExtMessageHash\<close> throws \<open>e\<close>.
  \<^verbatim>\<open>tx.inMessage?.info.type !== 'external-in'\<close> holds for an absent inbound message
  too.
\<close>

function search ::
  "'b ton_core \<Rightarrow> config \<Rightarrow> digest \<Rightarrow> transaction list \<Rightarrow> nat \<Rightarrow>
     event list \<times> (js_error + bool option)" where
  "search lib config normalizedHash transactions i =
     (if i < length transactions then
        (let tx = transactions ! i;
             header = vlog config (Candidate (i + 1) (length transactions) (lt tx) (now tx))
         in case inMessage tx of
              None \<Rightarrow>
                prepend (header @ vlog config Skipped)
                  (search lib config normalizedHash transactions (i + 1))
            | Some m \<Rightarrow>
                (case info m of
                   ExternalIn s d f \<Rightarrow>
                     prepend (header @ [HashCall m])
                       (case getNormalizedExtMessageHash lib m of
                          Inl e \<Rightarrow> ([], Inl e)
                        | Inr txHash \<Rightarrow>
                            if txHash = normalizedHash
                            then (found_report i transactions tx d, Inr (Some True))
                            else prepend (vlog config NoMatch)
                                   (search lib config normalizedHash transactions (i + 1)))
                 | _ \<Rightarrow>
                     prepend (header @ vlog config Skipped)
                       (search lib config normalizedHash transactions (i + 1))))
      else ([], Inr None))"
  by pat_completeness auto
termination
  by (relation "measure (\<lambda>(lib, config, normalizedHash, transactions, i). length transactions - i)")
    auto

declare search.simps [simp del]

text \<open>Lines 207-211: the report after a loop that matched nothing.\<close>

definition not_found_report :: "config \<Rightarrow> event list" where
  "not_found_report config =
     [Log (NotFoundInLast (limit config)), Log TipsHeader, Log TipWait, Log TipLimit,
      Log TipNetwork]"

text \<open>Lines 147-151: \<^verbatim>\<open>if (config.apiKey)\<close> is false for the empty string too.\<close>

definition api_key_line :: "config \<Rightarrow> line" where
  "api_key_line config =
     (case apiKey config of
        None \<Rightarrow> ApiKeyNone
      | Some k \<Rightarrow> if k = [] then ApiKeyNone else ApiKeyLine (''***'' @ drop (length k - 4) k))"

text \<open>
  The body of the \<^verbatim>\<open>try\<close> block of \<^verbatim>\<open>verifyBoc\<close>, lines 118-213: its events, and
  the value returned or the value thrown.
\<close>

definition verifyBoc_try ::
  "'b ton_core \<Rightarrow> fetch \<Rightarrow> config \<Rightarrow> event list \<times> (js_error + bool)" where
  "verifyBoc_try lib getTransactions config =
     prepend ([Log Banner] @ vlog config ParsingBoc)
       (case fromBase64 lib (boc config) of
          Inl e \<Rightarrow> ([], Inl e)
        | Inr c \<Rightarrow>
       (case loadMessage lib c of
          Inl e \<Rightarrow> ([], Inl e)
        | Inr message \<Rightarrow>
       (case info message of
          ExternalIn s targetAddress f \<Rightarrow>
            prepend ([Log BocParsed, Log (AddressLine targetAddress)] @
                     vlog config CalculatingHash @ [HashCall message])
              (case getNormalizedExtMessageHash lib message of
                 Inl e \<Rightarrow> ([], Inl e)
               | Inr normalizedHash \<Rightarrow>
                   (let endpoint = endpoint_of (network config);
                        client = \<lparr>endpoint = endpoint, client_apiKey = apiKey config\<rparr>
                    in prepend ([Log (HashLine normalizedHash)] @ vlog config Connecting @
                                [NewTonClient client, Log (NetworkLine (network config)),
                                 Log (EndpointLine endpoint), Log (api_key_line config)] @
                                vlog config (Fetching (limit config)) @
                                [GetTransactions client targetAddress (limit config) True])
                         (case getTransactions client targetAddress (limit config) True of
                            Inl e \<Rightarrow> ([], Inl e)
                          | Inr transactions \<Rightarrow>
                              prepend [Log (FoundCount (length transactions))]
                                (if length transactions = 0
                                 then ([Log NoTransactions], Inr False)
                                 else prepend [Log Searching]
                                        (case search lib config normalizedHash transactions 0 of
                                           (t, Inl e) \<Rightarrow> (t, Inl e)
                                         | (t, Inr (Some r)) \<Rightarrow> (t, Inr r)
                                         | (t, Inr None) \<Rightarrow>
                                             (t @ not_found_report config, Inr False))))))
        | _ \<Rightarrow>
            ([], Inl (Error (''Expected external-in message, got '' @
                              info_type (info message)))))))"

text \<open>
  The \<^verbatim>\<open>catch\<close> handler, lines 216-219. It prints the message of an \<^verbatim>\<open>Error\<close>,
  or the text of another thrown value; in verbose mode it also prints the stack of an
  \<^verbatim>\<open>Error\<close>, which the runtime sets on every \<^verbatim>\<open>Error\<close> object.
\<close>

definition catch_handler :: "config \<Rightarrow> js_error \<Rightarrow> event list" where
  "catch_handler config error =
     (case error of
        Error msg \<Rightarrow>
          LogError (ErrorLine msg) # (if verbose config then [LogError StackTrace] else [])
      | Thrown txt \<Rightarrow> [LogError (ErrorLine txt)])"

text \<open>
  \<^verbatim>\<open>verifyBoc\<close>, lines 116-222: the \<^verbatim>\<open>try\<close> block with its \<^verbatim>\<open>catch\<close>, which
  returns \<^verbatim>\<open>false\<close> after the handler's lines.
\<close>

definition verifyBoc :: "'b ton_core \<Rightarrow> fetch \<Rightarrow> config \<Rightarrow> event list \<times> bool" where
  "verifyBoc lib getTransactions config =
     (case verifyBoc_try lib getTransactions config of
        (t, Inr found) \<Rightarrow> (t, found)
      | (t, Inl error) \<Rightarrow> (t @ catch_handler config error, False))"

section \<open>Command line and entry point\<close>

text \<open>\<^verbatim>\<open>args[i]\<close>: \<^verbatim>\<open>undefined\<close> beyond the end of the array.\<close>

definition arg_at :: "string list \<Rightarrow> nat \<Rightarrow> string option" where
  "arg_at args i = (if i < length args then Some (args ! i) else None)"

text \<open>
  The loop of \<^verbatim>\<open>parseArgs\<close>, lines 94-109. A flag with a value reads \<^verbatim>\<open>args[++i]\<close>,
  so the loop goes on two places further. \<^verbatim>\<open>parseInt(_, 10)\<close> is a parameter.
\<close>

function parse_loop ::
  "(string option \<Rightarrow> js_number) \<Rightarrow> string list \<Rightarrow> nat \<Rightarrow> config \<Rightarrow> config" where
  "parse_loop parseInt args i config =
     (if i < length args then
        (if args ! i = ''--network'' then
           parse_loop parseInt args (i + 2) (config\<lparr>network := arg_at args (i + 1)\<rparr>)
         else if args ! i = ''--api-key'' then
           parse_loop parseInt args (i + 2) (config\<lparr>apiKey := arg_at args (i + 1)\<rparr>)
         else if args ! i = ''--limit'' then
           parse_loop parseInt args (i + 2) (config\<lparr>limit := parseInt (arg_at args (i + 1))\<rparr>)
         else if args ! i = ''--verbose'' then
           parse_loop parseInt args (i + 1) (config\<lparr>verbose := True\<rparr>)
         else parse_loop parseInt args (i + 1) config)
      else config)"
  by pat_completeness auto
termination
  by (relation "measure (\<lambda>(parseInt, args, i, config). length args - i)") auto

declare parse_loop.simps [simp del]

text \<open>
  \<^verbatim>\<open>parseArgs\<close>, lines 59-112, on \<^verbatim>\<open>process.argv.slice(2)\<close>. \<open>Inl 0\<close> is
  \<^verbatim>\<open>process.exit(0)\<close> after the usage text.
\<close>

definition parseArgs ::
  "(string option \<Rightarrow> js_number) \<Rightarrow> string list \<Rightarrow> event list \<times> (nat + config)" where
  "parseArgs parseInt args =
     (if length args = 0 \<or> args ! 0 = ''--help'' \<or> args ! 0 = ''-h''
      then ([Log Usage], Inl 0)
      else ([], Inr (parse_loop parseInt args 1
                       \<lparr>boc = args ! 0, network = Some ''mainnet'', apiKey = None,
                        limit = Num 10, verbose = False\<rparr>)))"


section \<open>Reading a run\<close>

text \<open>
  The events of one kind in a list of events: calls of the normalized hash, fetches,
  client constructions, lines written by \<^verbatim>\<open>console.error\<close>, position lines of a
  match and the per-candidate lines of verbose mode.
\<close>

fun is_hash_call :: "event \<Rightarrow> bool" where
  "is_hash_call (HashCall _) = True"
| "is_hash_call _ = False"

fun is_fetch :: "event \<Rightarrow> bool" where
  "is_fetch (GetTransactions _ _ _ _) = True"
| "is_fetch _ = False"

fun is_client :: "event \<Rightarrow> bool" where
  "is_client (NewTonClient _) = True"
| "is_client _ = False"

fun is_error :: "event \<Rightarrow> bool" where
  "is_error (LogError _) = True"
| "is_error _ = False"

fun is_position :: "event \<Rightarrow> bool" where
  "is_position (Log (Position _ _)) = True"
| "is_position _ = False"

fun is_candidate :: "event \<Rightarrow> bool" where
  "is_candidate (Log (Candidate _ _ _ _)) = True"
| "is_candidate _ = False"

text \<open>
  The external-in inbound message of a transaction, if it has one, and those of a list
  of transactions in list order.
\<close>

definition ext_in_message :: "transaction \<Rightarrow> message list" where
  "ext_in_message tx =
     (case inMessage tx of
        None \<Rightarrow> []
      | Some m \<Rightarrow> if info_type (info m) = ''external-in'' then [m] else [])"

definition ext_in_messages :: "transaction list \<Rightarrow> message list" where
  "ext_in_messages txs = concat (map ext_in_message txs)"

text \<open>
  A transaction matches a target digest when its inbound message is external-in and
  the normalized hash of that message is the target.
\<close>

definition matches :: "'b ton_core \<Rightarrow> digest \<Rightarrow> transaction \<Rightarrow> bool" where
  "matches lib h tx =
     (case inMessage tx of
        None \<Rightarrow> False
      | Some m \<Rightarrow>
          info_type (info m) = ''external-in'' \<and> getNormalizedExtMessageHash lib m = Inr h)"

text \<open>The verbose line that opens the iteration for index \<open>k\<close>.\<close>

definition candidate_line :: "transaction list \<Rightarrow> nat \<Rightarrow> event" where
  "candidate_line txs k =
     Log (Candidate (k + 1) (length txs) (lt (txs ! k)) (now (txs ! k)))"

text \<open>
  The events of a run of \<^verbatim>\<open>verifyBoc\<close> that got as far as the fetch, lines 118-158,
  for the decoded message \<open>m\<close>, its destination \<open>d\<close> and its normalized hash \<open>h\<close>.
\<close>

definition client_of :: "config \<Rightarrow> ton_client" where
  "client_of config =
     \<lparr>endpoint = endpoint_of (network config), client_apiKey = apiKey config\<rparr>"

definition before_fetch :: "config \<Rightarrow> message \<Rightarrow> address \<Rightarrow> digest \<Rightarrow> event list" where
  "before_fetch config m d h =
     [Log Banner] @ vlog config ParsingBoc @ [Log BocParsed, Log (AddressLine d)] @
     vlog config CalculatingHash @ [HashCall m, Log (HashLine h)] @ vlog config Connecting @
     [NewTonClient (client_of config), Log (NetworkLine (network config)),
      Log (EndpointLine (endpoint_of (network config))), Log (api_key_line config)] @
     vlog config (Fetching (limit config)) @
     [GetTransactions (client_of config) d (limit config) True]"

section \<open>The normalized hash on a store of objects\<close>

text \<open>
  JavaScript objects are held by reference. To say that the function does not write to
  the object it is given, the same lines 34-55 are written here over a store: a list
  of objects, the address of an object being its index. A message object holds the
  address of its info object; cells and init values are immutable and stay values.
  An object spread \<^verbatim>\<open>{ ...x, k: v }\<close> allocates a new object. The function performs
  no assignment to a member of an existing object. The result is \<open>None\<close> when the
  argument is not the address of a message.
\<close>

datatype js_object =
    InfoObject common_message_info
  | MessageObject nat "state_init option" cell

type_synonym store = "js_object list"

definition alloc :: "store \<Rightarrow> js_object \<Rightarrow> store \<times> nat" where
  "alloc h obj = (h @ [obj], length h)"

definition read_info :: "store \<Rightarrow> nat \<Rightarrow> common_message_info option" where
  "read_info h p =
     (if p < length h
      then (case h ! p of InfoObject i \<Rightarrow> Some i | MessageObject _ _ _ \<Rightarrow> None)
      else None)"

definition read_message :: "store \<Rightarrow> nat \<Rightarrow> message option" where
  "read_message h p =
     (if p < length h
      then (case h ! p of
              MessageObject ip i b \<Rightarrow>
                (case read_info h ip of
                   Some mi \<Rightarrow> Some \<lparr>info = mi, init = i, body = b\<rparr>
                 | None \<Rightarrow> None)
            | InfoObject _ \<Rightarrow> None)
      else None)"

definition getNormalizedExtMessageHash_store ::
  "'b ton_core \<Rightarrow> store \<Rightarrow> nat \<Rightarrow> (store \<times> (js_error + digest)) option" where
  \<open>getNormalizedExtMessageHash_store lib h message =
    (if message < length h then
       (case h ! message of
          MessageObject message_info message_init message_body \<Rightarrow>
            (case read_info h message_info of
               Some (ExternalIn s d f) \<Rightarrow>
                 (let (h1, info') = alloc h (InfoObject (ExternalIn None d 0));
                      (h2, normalizedMessage) =
                         alloc h1 (MessageObject info' None message_body)
                  in (case read_message h2 normalizedMessage of
                        Some nm \<Rightarrow>
                          Some (h2, Inr (cell_hash lib
                                  (endCell lib (storeMessage lib nm True (beginCell lib)))))
                      | None \<Rightarrow> None))
             | Some mi \<Rightarrow>
                 Some (h, Inl (Error (''Message must be "external-in", got '' @ info_type mi)))
             | None \<Rightarrow> None)
        | InfoObject _ \<Rightarrow> None)
     else None)\<close>

section \<open>A small library instance for concrete runs\<close>

text \<open>
  Concrete inputs need a concrete library. \<open>demo_core\<close> is a toy codec, not the real
  one: a builder is a cell under construction, a message is written as a few header
  bits with the body as a reference when \<open>forceRef\<close> is set, and the hash is a
  checksum of the tree. Three container strings decode: \<open>''ext''\<close> to an external-in
  message, \<open>''int''\<close> to an internal one and \<open>''raw''\<close> to a cell that is not a
  message.
\<close>

fun cell_sum :: "cell \<Rightarrow> nat" where
  "cell_sum (Cell bs rs) =
     foldl (\<lambda>a b. 2 * a + (if b then 1 else 0)) 1 bs + 31 * sum_list (map cell_sum rs)"

fun info_bits :: "common_message_info \<Rightarrow> bool list" where
  "info_bits (Internal _ _ _ _ d _ _ _ _ _) = [False, workChain d = 0]"
| "info_bits (ExternalIn s d f) = [True, False, s \<noteq> None, workChain d = 0, f \<noteq> 0]"
| "info_bits (ExternalOut _ _ _ _) = [True, True]"

fun demo_store :: "message \<Rightarrow> bool \<Rightarrow> cell \<Rightarrow> cell" where
  "demo_store m forceRef (Cell bs rs) =
     (if forceRef
      then Cell (bs @ info_bits (info m) @ [init m \<noteq> None, True]) (rs @ [body m])
      else Cell (bs @ info_bits (info m) @ [init m \<noteq> None, False] @ bits (body m))
             (rs @ refs (body m)))"

definition demo_address :: address where
  "demo_address = \<lparr>workChain = 0, hashPart = 7\<rparr>"

definition demo_ext_message :: message where
  "demo_ext_message =
     \<lparr>info = ExternalIn (Some \<lparr>ext_bits = 8, ext_number = 5\<rparr>) demo_address 3,
      init = Some \<lparr>code = None, data = None\<rparr>,
      body = Cell [True, True, False] []\<rparr>"

definition demo_int_message :: message where
  "demo_int_message =
     \<lparr>info = Internal True False False demo_address demo_address 1 0 0 0 0,
      init = None,
      body = Cell [] []\<rparr>"

definition demo_core :: "cell ton_core" where
  "demo_core =
     \<lparr>fromBase64 = (\<lambda>s. if s = ''ext'' then Inr (Cell [True] [])
                         else if s = ''int'' then Inr (Cell [False] [])
                         else if s = ''raw'' then Inr (Cell [] [])
                         else Inl (Error ''Invalid BOC'')),
      loadMessage = (\<lambda>c. if c = Cell [True] [] then Inr demo_ext_message
                          else if c = Cell [False] [] then Inr demo_int_message
                          else Inl (Error ''Unknown message'')),
      beginCell = Cell [] [],
      storeMessage = demo_store,
      endCell = (\<lambda>b. b),
      cell_hash = (\<lambda>c. of_nat (cell_sum c))\<rparr>"

text \<open>
  A fetch collaborator for concrete runs. The main network knows four transactions at
  \<open>demo_address\<close>, of which only the last carries the message of \<open>''ext''\<close>; the
  test network knows none; any other endpoint fails.
\<close>

definition demo_tx_absent :: transaction where
  "demo_tx_absent =
     \<lparr>lt = 1, now = 100, inMessage = None, outMessages = [], tx_hash = 11\<rparr>"

definition demo_tx_internal :: transaction where
  "demo_tx_internal =
     \<lparr>lt = 2, now = 200, inMessage = Some demo_int_message, outMessages = [], tx_hash = 12\<rparr>"

definition demo_tx_other :: transaction where
  "demo_tx_other =
     \<lparr>lt = 3, now = 300,
      inMessage = Some \<lparr>info = ExternalIn None demo_address 0, init = None,
                         body = Cell [False] []\<rparr>,
      outMessages = [], tx_hash = 13\<rparr>"

definition demo_tx_match :: transaction where
  "demo_tx_match =
     \<lparr>lt = 4, now = 400,
      inMessage = Some \<lparr>info = ExternalIn None demo_address 0, init = None,
                         body = Cell [True, True, False] []\<rparr>,
      outMessages = [demo_int_message], tx_hash = 14\<rparr>"

definition demo_transactions :: "transaction list" where
  "demo_transactions = [demo_tx_absent, demo_tx_internal, demo_tx_other, demo_tx_match]"

definition demo_fetch :: fetch where
  "demo_fetch client a lim archival =
     (if endpoint client = Str ''https://toncenter.com/api/v2/jsonRPC'' then
        (if a = demo_address
         then Inr (case lim of Num n \<Rightarrow> take (nat n) demo_transactions
                              | NaN \<Rightarrow> demo_transactions)
         else Inr [])
      else if endpoint client = Str ''https://testnet.toncenter.com/api/v2/jsonRPC'' then Inr []
      else Inl (Error ''Network Error''))"

definition demo_config :: config where
  "demo_config =
     \<lparr>boc = ''ext'', network = Some ''mainnet'', apiKey = None, limit = Num 10,
      verbose = False\<rparr>"

text \<open>\<^verbatim>\<open>parseInt\<close> on a string of decimal digits, for concrete command lines.\<close>

definition demo_parseInt :: "string option \<Rightarrow> js_number" where
  "demo_parseInt a =
     (case a of
        None \<Rightarrow> NaN
      | Some ds \<Rightarrow>
          if ds \<noteq> [] \<and> list_all (\<lambda>c. (48::nat) \<le> of_char c \<and> of_char c \<le> (57::nat)) ds
          then Num (foldl (\<lambda>n c. 10 * n + (int (of_char c) - 48)) 0 ds)
          else NaN)"

text \<open>
  A store with the info object of \<open>demo_ext_message\<close> at address 0 and two message
  objects, at addresses 1 and 2, with the members of \<open>demo_ext_message\<close>.
\<close>

definition demo_objects :: store where
  "demo_objects =
     [InfoObject (ExternalIn (Some \<lparr>ext_bits = 8, ext_number = 5\<rparr>) demo_address 3),
      MessageObject 0 (Some \<lparr>code = None, data = None\<rparr>) (Cell [True, True, False] []),
      MessageObject 0 (Some \<lparr>code = None, data = None\<rparr>) (Cell [True, True, False] [])]"

section \<open>Properties of the normalized hash\<close>

lemma info_type_external_in:
  "info_type i = ''external-in'' \<longleftrightarrow> (\<exists>s d f. i = ExternalIn s d f)"
  by (cases i) simp_all

text \<open>
  C1. For a message whose info variant is external-in, the digest returned is the
  content hash of the cell written by \<open>storeMessage\<close> with \<open>forceRef = True\<close> for a
  normalized copy: its info is external-in with the same destination, no source and
  import fee zero, its init is empty and its body is the body of the input.
\<close>

theorem normalized_hash_external_in:
  assumes "info m = ExternalIn s d f"
  shows "getNormalizedExtMessageHash lib m =
           Inr (cell_hash lib (endCell lib
             (storeMessage lib \<lparr>info = ExternalIn None d 0, init = None, body = body m\<rparr>
                True (beginCell lib))))"
  using assms by (cases m) (simp add: getNormalizedExtMessageHash_def)

theorem normalized_hash_external_in_witness:
  "info demo_ext_message =
     ExternalIn (Some \<lparr>ext_bits = 8, ext_number = 5\<rparr>) demo_address 3 \<and>
   getNormalizedExtMessageHash demo_core demo_ext_message =
     Inr (cell_hash demo_core (endCell demo_core
       (storeMessage demo_core
          \<lparr>info = ExternalIn None demo_address 0, init = None, body = Cell [True, True, False] []\<rparr>
          True (beginCell demo_core)))) \<and>
   getNormalizedExtMessageHash demo_core demo_ext_message = Inr 635"
proof -
  have h: "info demo_ext_message =
             ExternalIn (Some \<lparr>ext_bits = 8, ext_number = 5\<rparr>) demo_address 3"
    by (simp add: demo_ext_message_def)
  have b: "body demo_ext_message = Cell [True, True, False] []"
    by (simp add: demo_ext_message_def)
  show ?thesis
    using h normalized_hash_external_in [OF h, of demo_core]
    by (simp add: b demo_core_def demo_address_def)
qed

text \<open>
  C2. For a message whose info variant is not external-in the function throws, and the
  message of the error ends with the tag of the variant it was given. A digest is
  returned exactly when the variant is external-in.
\<close>

theorem non_external_in_rejected:
  \<open>(info_type (info m) \<noteq> ''external-in'' \<longrightarrow>
      getNormalizedExtMessageHash lib m =
        Inl (Error (''Message must be "external-in", got '' @ info_type (info m)))) \<and>
    ((\<exists>h. getNormalizedExtMessageHash lib m = Inr h) \<longleftrightarrow>
      info_type (info m) = ''external-in'')\<close>
  by (cases "info m") (simp_all add: getNormalizedExtMessageHash_def)

theorem non_external_in_rejected_witness:
  \<open>info_type (info demo_int_message) = ''internal'' \<and>
    info_type (info demo_int_message) \<noteq> ''external-in'' \<and>
    getNormalizedExtMessageHash demo_core demo_int_message =
      Inl (Error ''Message must be "external-in", got internal'') \<and>
    (\<nexists>h. getNormalizedExtMessageHash demo_core demo_int_message = Inr h)\<close>
  using non_external_in_rejected [of demo_int_message demo_core]
  by (simp add: demo_int_message_def)

text \<open>
  C3. Two external-in messages with the same destination and the same body, whatever
  their source addresses, import fees and init values, have the same normalized hash,
  a digest of 32 bytes.
\<close>

theorem normalized_hash_invariant:
  assumes "info m1 = ExternalIn s1 d f1"
    and "info m2 = ExternalIn s2 d f2"
    and "body m1 = body m2"
  shows "\<exists>h. getNormalizedExtMessageHash lib m1 = Inr h \<and>
             getNormalizedExtMessageHash lib m2 = Inr h \<and> size h = 8 * 32"
  using assms
  by (cases m1; cases m2) (simp add: getNormalizedExtMessageHash_def word_size)

theorem normalized_hash_invariant_witness:
  "getNormalizedExtMessageHash demo_core demo_ext_message = Inr 635 \<and>
   getNormalizedExtMessageHash demo_core
     \<lparr>info = ExternalIn None demo_address 0, init = None, body = Cell [True, True, False] []\<rparr>
     = Inr 635"
proof -
  let ?m2 = "\<lparr>info = ExternalIn None demo_address 0, init = None,
               body = Cell [True, True, False] []\<rparr>"
  have h1: "info demo_ext_message =
              ExternalIn (Some \<lparr>ext_bits = 8, ext_number = 5\<rparr>) demo_address 3"
    by (simp add: demo_ext_message_def)
  have h2: "info ?m2 = ExternalIn None demo_address 0"
    by simp
  have h3: "body demo_ext_message = body ?m2"
    by (simp add: demo_ext_message_def)
  have v: "getNormalizedExtMessageHash demo_core ?m2 = Inr 635"
    by (simp add: getNormalizedExtMessageHash_def demo_core_def demo_address_def)
  from normalized_hash_invariant [OF h1 h2 h3, of demo_core] v
  show ?thesis by auto
qed

section \<open>The search loop, one iteration at a time\<close>

lemma fst_prepend [simp]: "fst (prepend es p) = es @ fst p"
  by (cases p) simp

lemma snd_prepend [simp]: "snd (prepend es p) = snd p"
  by (cases p) simp

lemma prepend_prepend [simp]: "prepend a (prepend b p) = prepend (a @ b) p"
  by (cases p) simp

lemma filter_vlog [simp]:
  "filter P (vlog config l) = (if verbose config \<and> P (Log l) then [Log l] else [])"
  by (simp add: vlog_def)

lemma found_report_filters [simp]:
  "filter is_hash_call (found_report i txs tx d) = []"
  "filter is_fetch (found_report i txs tx d) = []"
  "filter is_client (found_report i txs tx d) = []"
  "filter is_error (found_report i txs tx d) = []"
  "filter is_candidate (found_report i txs tx d) = []"
  "filter is_position (found_report i txs tx d) = [Log (Position (Suc i) (length txs))]"
  by (simp_all add: found_report_def split: list.splits common_message_info.splits)

lemma search_end: "\<not> i < length txs \<Longrightarrow> search lib config h txs i = ([], Inr None)"
  by (subst search.simps) (simp add: Let_def)

lemma search_cases:
  assumes "i < length txs"
  obtains
    (skip) "ext_in_message (txs ! i) = []" "\<not> matches lib h (txs ! i)"
      "search lib config h txs i =
         prepend (vlog config (Candidate (i + 1) (length txs) (lt (txs ! i)) (now (txs ! i))) @
                  vlog config Skipped)
           (search lib config h txs (Suc i))"
  | (mismatch) m where "ext_in_message (txs ! i) = [m]" "\<not> matches lib h (txs ! i)"
      "search lib config h txs i =
         prepend (vlog config (Candidate (i + 1) (length txs) (lt (txs ! i)) (now (txs ! i))) @
                  [HashCall m] @ vlog config NoMatch)
           (search lib config h txs (Suc i))"
  | (match) m d where "ext_in_message (txs ! i) = [m]" "matches lib h (txs ! i)"
      "search lib config h txs i =
         (vlog config (Candidate (i + 1) (length txs) (lt (txs ! i)) (now (txs ! i))) @
          [HashCall m] @ found_report i txs (txs ! i) d, Inr (Some True))"
proof (cases "inMessage (txs ! i)")
  case None
  with assms have "search lib config h txs i =
         prepend (vlog config (Candidate (i + 1) (length txs) (lt (txs ! i)) (now (txs ! i))) @
                  vlog config Skipped)
           (search lib config h txs (Suc i))"
    by (subst search.simps) (simp add: Let_def)
  with None skip show ?thesis
    by (simp add: ext_in_message_def matches_def)
next
  case (Some m)
  show ?thesis
  proof (cases "info m")
    case (ExternalIn s d f)
    then obtain x where x: "getNormalizedExtMessageHash lib m = Inr x"
      by (simp add: getNormalizedExtMessageHash_def)
    show ?thesis
    proof (cases "x = h")
      case True
      with assms Some ExternalIn x have "search lib config h txs i =
         (vlog config (Candidate (i + 1) (length txs) (lt (txs ! i)) (now (txs ! i))) @
          [HashCall m] @ found_report i txs (txs ! i) d, Inr (Some True))"
        by (subst search.simps) (simp add: Let_def)
      with Some ExternalIn x True match show ?thesis
        by (simp add: ext_in_message_def matches_def)
    next
      case False
      with assms Some ExternalIn x have "search lib config h txs i =
         prepend (vlog config (Candidate (i + 1) (length txs) (lt (txs ! i)) (now (txs ! i))) @
                  [HashCall m] @ vlog config NoMatch)
           (search lib config h txs (Suc i))"
        by (subst search.simps) (simp add: Let_def)
      with Some ExternalIn x False mismatch show ?thesis
        by (simp add: ext_in_message_def matches_def)
    qed
  next
    case (Internal a1 a2 a3 a4 a5 a6 a7 a8 a9 a10)
    with assms Some have "search lib config h txs i =
         prepend (vlog config (Candidate (i + 1) (length txs) (lt (txs ! i)) (now (txs ! i))) @
                  vlog config Skipped)
           (search lib config h txs (Suc i))"
      by (subst search.simps) (simp add: Let_def)
    with Some Internal skip show ?thesis
      by (simp add: ext_in_message_def matches_def)
  next
    case (ExternalOut a1 a2 a3 a4)
    with assms Some have "search lib config h txs i =
         prepend (vlog config (Candidate (i + 1) (length txs) (lt (txs ! i)) (now (txs ! i))) @
                  vlog config Skipped)
           (search lib config h txs (Suc i))"
      by (subst search.simps) (simp add: Let_def)
    with Some ExternalOut skip show ?thesis
      by (simp add: ext_in_message_def matches_def)
  qed
qed


lemma ext_in_messages_drop:
  "i < length txs \<Longrightarrow>
   ext_in_messages (drop i txs) = ext_in_message (txs ! i) @ ext_in_messages (drop (Suc i) txs)"
  by (simp add: ext_in_messages_def flip: Cons_nth_drop_Suc)

lemma search_first_match:
  assumes "i \<le> j" and "j < length txs" and "matches lib h (txs ! j)"
    and "\<forall>k. i \<le> k \<and> k < j \<longrightarrow> \<not> matches lib h (txs ! k)"
  shows "snd (search lib config h txs i) = Inr (Some True) \<and>
         filter is_hash_call (fst (search lib config h txs i)) =
           map HashCall (ext_in_messages (drop i (take (Suc j) txs))) \<and>
         filter is_position (fst (search lib config h txs i)) =
           [Log (Position (Suc j) (length txs))] \<and>
         filter is_candidate (fst (search lib config h txs i)) =
           (if verbose config then map (candidate_line txs) [i..<Suc j] else [])"
  using assms
proof (induction "j - i" arbitrary: i)
  case 0
  then have ij: "i = j" by simp
  have len: "i < length txs" using 0 by simp
  have one: "drop i (take (Suc i) txs) = [txs ! i]"
    using len by (simp add: take_Suc_conv_app_nth)
  from len show ?case
  proof (cases rule: search_cases [where lib = lib and h = h and config = config])
    case skip
    with 0 ij show ?thesis by simp
  next
    case (mismatch m)
    with 0 ij show ?thesis by simp
  next
    case (match m d)
    then show ?thesis
      unfolding ij [symmetric]
      by (simp add: one ext_in_messages_def candidate_line_def)
  qed
next
  case (Suc n)
  then have lt: "i < j" and len: "i < length txs" by simp_all
  then have nm: "\<not> matches lib h (txs ! i)" using Suc.prems by simp
  have IH: "snd (search lib config h txs (Suc i)) = Inr (Some True) \<and>
         filter is_hash_call (fst (search lib config h txs (Suc i))) =
           map HashCall (ext_in_messages (drop (Suc i) (take (Suc j) txs))) \<and>
         filter is_position (fst (search lib config h txs (Suc i))) =
           [Log (Position (Suc j) (length txs))] \<and>
         filter is_candidate (fst (search lib config h txs (Suc i))) =
           (if verbose config then map (candidate_line txs) [Suc i..<Suc j] else [])"
    using Suc.hyps(2) Suc.prems lt by (intro Suc.hyps(1)) auto
  have split: "ext_in_messages (drop i (take (Suc j) txs)) =
                 ext_in_message (txs ! i) @ ext_in_messages (drop (Suc i) (take (Suc j) txs))"
    using ext_in_messages_drop [of i "take (Suc j) txs"] lt len Suc.prems(2) by simp
  have "[i..<Suc j] = i # [Suc i..<Suc j]"
    using lt by (simp add: upt_conv_Cons)
  then have upt: "map (candidate_line txs) [i..<Suc j] =
                    candidate_line txs i # map (candidate_line txs) [Suc i..<Suc j]"
    by (simp only: list.map)
  from len show ?case
  proof (cases rule: search_cases [where lib = lib and h = h and config = config])
    case skip
    with IH show ?thesis
      by (simp add: split upt candidate_line_def del: upt_Suc)
  next
    case (mismatch m)
    with IH show ?thesis
      by (simp add: split upt candidate_line_def del: upt_Suc)
  next
    case (match m d)
    with nm show ?thesis by simp
  qed
qed

lemma search_no_match:
  assumes "\<forall>k. i \<le> k \<and> k < length txs \<longrightarrow> \<not> matches lib h (txs ! k)"
  shows "snd (search lib config h txs i) = Inr None \<and>
         filter is_hash_call (fst (search lib config h txs i)) =
           map HashCall (ext_in_messages (drop i txs)) \<and>
         filter is_position (fst (search lib config h txs i)) = [] \<and>
         filter is_candidate (fst (search lib config h txs i)) =
           (if verbose config then map (candidate_line txs) [i..<length txs] else [])"
  using assms
proof (induction "length txs - i" arbitrary: i)
  case 0
  then show ?case by (simp add: search_end ext_in_messages_def)
next
  case (Suc n)
  then have len: "i < length txs" by simp
  have IH: "snd (search lib config h txs (Suc i)) = Inr None \<and>
         filter is_hash_call (fst (search lib config h txs (Suc i))) =
           map HashCall (ext_in_messages (drop (Suc i) txs)) \<and>
         filter is_position (fst (search lib config h txs (Suc i))) = [] \<and>
         filter is_candidate (fst (search lib config h txs (Suc i))) =
           (if verbose config then map (candidate_line txs) [Suc i..<length txs] else [])"
    using Suc.hyps(2) Suc.prems by (intro Suc.hyps(1)) auto
  have "[i..<length txs] = i # [Suc i..<length txs]"
    using len by (simp add: upt_conv_Cons)
  then have upt: "map (candidate_line txs) [i..<length txs] =
                    candidate_line txs i # map (candidate_line txs) [Suc i..<length txs]"
    by (simp only: list.map)
  from len show ?case
  proof (cases rule: search_cases [where lib = lib and h = h and config = config])
    case skip
    with IH show ?thesis
      by (simp add: ext_in_messages_drop [OF len] upt candidate_line_def del: upt_Suc)
  next
    case (mismatch m)
    with IH show ?thesis
      by (simp add: ext_in_messages_drop [OF len] upt candidate_line_def del: upt_Suc)
  next
    case (match m d)
    with Suc.prems len show ?thesis by simp
  qed
qed

lemma search_quiet:
  "filter is_fetch (fst (search lib config h txs i)) = [] \<and>
   filter is_client (fst (search lib config h txs i)) = [] \<and>
   filter is_error (fst (search lib config h txs i)) = [] \<and>
   (\<forall>e. snd (search lib config h txs i) \<noteq> Inl e)"
proof (induction "length txs - i" arbitrary: i)
  case 0
  then show ?case by (simp add: search_end)
next
  case (Suc n)
  then have len: "i < length txs" by simp
  have IH: "filter is_fetch (fst (search lib config h txs (Suc i))) = [] \<and>
   filter is_client (fst (search lib config h txs (Suc i))) = [] \<and>
   filter is_error (fst (search lib config h txs (Suc i))) = [] \<and>
   (\<forall>e. snd (search lib config h txs (Suc i)) \<noteq> Inl e)"
    using Suc.hyps(2) by (intro Suc.hyps(1)) auto
  from len show ?case
  proof (cases rule: search_cases [where lib = lib and h = h and config = config])
    case skip
    with IH show ?thesis by simp
  next
    case (mismatch m)
    with IH show ?thesis by simp
  next
    case (match m d)
    then show ?thesis by simp
  qed
qed

section \<open>The runs of the verifier, case by case\<close>

lemma api_key_line_kind [simp]:
  "\<not> is_position (Log (api_key_line config))"
  "\<not> is_candidate (Log (api_key_line config))"
  by (simp_all add: api_key_line_def split: option.splits)

lemma before_fetch_filters [simp]:
  "filter is_hash_call (before_fetch config m d h) = [HashCall m]"
  "filter is_fetch (before_fetch config m d h) = [GetTransactions (client_of config) d (limit config) True]"
  "filter is_client (before_fetch config m d h) = [NewTonClient (client_of config)]"
  "filter is_error (before_fetch config m d h) = []"
  "filter is_position (before_fetch config m d h) = []"
  "filter is_candidate (before_fetch config m d h) = []"
  by (simp_all add: before_fetch_def)

lemma try_malformed:
  assumes "fromBase64 lib (boc config) = Inl e"
  shows "verifyBoc_try lib gt config = ([Log Banner] @ vlog config ParsingBoc, Inl e)"
  using assms by (simp add: verifyBoc_try_def)

lemma try_unloadable:
  assumes "fromBase64 lib (boc config) = Inr c" and "loadMessage lib c = Inl e"
  shows "verifyBoc_try lib gt config = ([Log Banner] @ vlog config ParsingBoc, Inl e)"
  using assms by (simp add: verifyBoc_try_def)

lemma try_unsupported:
  assumes "fromBase64 lib (boc config) = Inr c" and "loadMessage lib c = Inr m"
    and "info_type (info m) \<noteq> ''external-in''"
  shows "verifyBoc_try lib gt config =
           ([Log Banner] @ vlog config ParsingBoc,
            Inl (Error (''Expected external-in message, got '' @ info_type (info m))))"
  using assms by (cases "info m") (simp_all add: verifyBoc_try_def)

lemma try_fetch_failed:
  assumes "fromBase64 lib (boc config) = Inr c" and "loadMessage lib c = Inr m"
    and "info m = ExternalIn s d f" and "getNormalizedExtMessageHash lib m = Inr h"
    and "gt (client_of config) d (limit config) True = Inl e"
  shows "verifyBoc_try lib gt config = (before_fetch config m d h, Inl e)"
  using assms by (simp add: verifyBoc_try_def before_fetch_def client_of_def Let_def)

lemma try_empty:
  assumes "fromBase64 lib (boc config) = Inr c" and "loadMessage lib c = Inr m"
    and "info m = ExternalIn s d f" and "getNormalizedExtMessageHash lib m = Inr h"
    and "gt (client_of config) d (limit config) True = Inr []"
  shows "verifyBoc_try lib gt config =
           (before_fetch config m d h @ [Log (FoundCount 0), Log NoTransactions], Inr False)"
  using assms by (simp add: verifyBoc_try_def before_fetch_def client_of_def Let_def)

lemma try_searched:
  assumes "fromBase64 lib (boc config) = Inr c" and "loadMessage lib c = Inr m"
    and "info m = ExternalIn s d f" and "getNormalizedExtMessageHash lib m = Inr h"
    and "gt (client_of config) d (limit config) True = Inr txs" and "txs \<noteq> []"
  shows "verifyBoc_try lib gt config =
           prepend (before_fetch config m d h @ [Log (FoundCount (length txs)), Log Searching])
             (case search lib config h txs 0 of
                (t, Inl e) \<Rightarrow> (t, Inl e)
              | (t, Inr (Some r)) \<Rightarrow> (t, Inr r)
              | (t, Inr None) \<Rightarrow> (t @ not_found_report config, Inr False))"
  using assms by (simp add: verifyBoc_try_def before_fetch_def client_of_def Let_def)

lemma hash_total:
  "info m = ExternalIn s d f \<Longrightarrow> \<exists>h. getNormalizedExtMessageHash lib m = Inr h"
  by (simp add: getNormalizedExtMessageHash_def)

lemma verifyBoc_try_cases:
  obtains
    (malformed) e where "fromBase64 lib (boc config) = Inl e"
  | (unloadable) c e where "fromBase64 lib (boc config) = Inr c" "loadMessage lib c = Inl e"
  | (unsupported) c m where "fromBase64 lib (boc config) = Inr c" "loadMessage lib c = Inr m"
      "info_type (info m) \<noteq> ''external-in''"
  | (fetch_failed) c m s d f h e where "fromBase64 lib (boc config) = Inr c"
      "loadMessage lib c = Inr m" "info m = ExternalIn s d f"
      "getNormalizedExtMessageHash lib m = Inr h"
      "gt (client_of config) d (limit config) True = Inl e"
  | (fetched) c m s d f h txs where "fromBase64 lib (boc config) = Inr c"
      "loadMessage lib c = Inr m" "info m = ExternalIn s d f"
      "getNormalizedExtMessageHash lib m = Inr h"
      "gt (client_of config) d (limit config) True = Inr txs"
proof (cases "fromBase64 lib (boc config)")
  case (Inl e)
  then show ?thesis by (rule malformed)
next
  case c: (Inr c)
  show ?thesis
  proof (cases "loadMessage lib c")
    case (Inl e)
    with c show ?thesis by (rule unloadable)
  next
    case m: (Inr m)
    show ?thesis
    proof (cases "info_type (info m) = ''external-in''")
      case False
      with c m show ?thesis by (rule unsupported)
    next
      case True
      then obtain s d f where i: "info m = ExternalIn s d f"
        by (auto simp: info_type_external_in)
      then obtain h where h: "getNormalizedExtMessageHash lib m = Inr h"
        using hash_total by blast
      show ?thesis
      proof (cases "gt (client_of config) d (limit config) True")
        case (Inl e)
        with c m i h show ?thesis by (rule fetch_failed)
      next
        case (Inr txs)
        with c m i h show ?thesis by (rule fetched)
      qed
    qed
  qed
qed

lemma catch_handler_errors [simp]:
  "filter is_error (catch_handler config e) = catch_handler config e"
  "catch_handler config e \<noteq> []"
  by (simp_all add: catch_handler_def split: js_error.splits)

lemma catch_handler_keeps:
  assumes "\<And>l. \<not> P (LogError l)"
  shows "filter P (catch_handler config e) = []"
  using assms by (simp add: catch_handler_def split: js_error.splits)

lemma verifyBoc_keeps:
  assumes "\<And>l. \<not> P (LogError l)"
  shows "filter P (fst (verifyBoc lib gt config)) = filter P (fst (verifyBoc_try lib gt config))"
  using catch_handler_keeps [of P, OF assms]
  by (cases "verifyBoc_try lib gt config") (auto simp: verifyBoc_def split: sum.splits)

lemma verifyBoc_result:
  "snd (verifyBoc lib gt config) \<longleftrightarrow> snd (verifyBoc_try lib gt config) = Inr True"
  by (cases "verifyBoc_try lib gt config") (auto simp: verifyBoc_def split: sum.splits)

lemma verifyBoc_errors:
  "filter is_error (fst (verifyBoc lib gt config)) =
     filter is_error (fst (verifyBoc_try lib gt config)) @
     (case snd (verifyBoc_try lib gt config) of
        Inr r \<Rightarrow> []
      | Inl e \<Rightarrow> catch_handler config e)"
  by (cases "verifyBoc_try lib gt config") (auto simp: verifyBoc_def split: sum.splits)

lemma searched_found:
  assumes "snd (search lib config h txs 0) = Inr (Some True)"
  shows "(case search lib config h txs 0 of
            (t, Inl e) \<Rightarrow> (t, Inl e)
          | (t, Inr (Some r)) \<Rightarrow> (t, Inr r)
          | (t, Inr None) \<Rightarrow> (t @ not_found_report config, Inr False)) =
         (fst (search lib config h txs 0), Inr True)"
  using assms by (cases "search lib config h txs 0") simp


lemma not_found_report_filters [simp]:
  "filter is_hash_call (not_found_report config) = []"
  "filter is_fetch (not_found_report config) = []"
  "filter is_client (not_found_report config) = []"
  "filter is_error (not_found_report config) = []"
  "filter is_position (not_found_report config) = []"
  "filter is_candidate (not_found_report config) = []"
  by (simp_all add: not_found_report_def)

section \<open>Concrete runs\<close>

lemma demo_decode:
  "fromBase64 demo_core ''ext'' = Inr (Cell [True] [])"
  "loadMessage demo_core (Cell [True] []) = Inr demo_ext_message"
  "fromBase64 demo_core ''int'' = Inr (Cell [False] [])"
  "loadMessage demo_core (Cell [False] []) = Inr demo_int_message"
  "fromBase64 demo_core ''raw'' = Inr (Cell [] [])"
  "loadMessage demo_core (Cell [] []) = Inl (Error ''Unknown message'')"
  "fromBase64 demo_core ''garbage'' = Inl (Error ''Invalid BOC'')"
  by (simp_all add: demo_core_def)

lemma demo_info:
  "info demo_ext_message =
     ExternalIn (Some \<lparr>ext_bits = 8, ext_number = 5\<rparr>) demo_address 3"
  "info_type (info demo_int_message) = ''internal''"
  by (simp_all add: demo_ext_message_def demo_int_message_def)

lemma demo_hash: "getNormalizedExtMessageHash demo_core demo_ext_message = Inr 635"
  by (simp add: getNormalizedExtMessageHash_def demo_ext_message_def demo_core_def
      demo_address_def)

lemma demo_matches:
  "\<not> matches demo_core 635 demo_tx_absent"
  "\<not> matches demo_core 635 demo_tx_internal"
  "\<not> matches demo_core 635 demo_tx_other"
  "matches demo_core 635 demo_tx_match"
  by (simp_all add: matches_def demo_tx_absent_def demo_tx_internal_def demo_tx_other_def
      demo_tx_match_def demo_int_message_def getNormalizedExtMessageHash_def demo_core_def
      demo_address_def)

lemma demo_ext_in:
  "ext_in_message demo_tx_absent = []"
  "ext_in_message demo_tx_internal = []"
  "ext_in_message demo_tx_other =
     [\<lparr>info = ExternalIn None demo_address 0, init = None, body = Cell [False] []\<rparr>]"
  "ext_in_message demo_tx_match =
     [\<lparr>info = ExternalIn None demo_address 0, init = None,
       body = Cell [True, True, False] []\<rparr>]"
  by (simp_all add: ext_in_message_def demo_tx_absent_def demo_tx_internal_def
      demo_tx_other_def demo_tx_match_def demo_int_message_def)

lemma demo_fetch_mainnet:
  "demo_fetch (client_of (demo_config\<lparr>verbose := v\<rparr>)) demo_address
     (limit (demo_config\<lparr>verbose := v\<rparr>)) True = Inr demo_transactions"
  by (simp add: demo_fetch_def client_of_def demo_config_def endpoint_of_def ENDPOINTS_def
      demo_transactions_def)

section \<open>Properties of the verifier\<close>

text \<open>
  C4. When the container decodes to an external-in message with normalized hash \<open>h\<close>
  and the fetch returns \<open>txs\<close>, and the transaction at index \<open>j\<close> is the first in list
  order whose normalized inbound-message hash is \<open>h\<close>, the verifier returns
  \<^verbatim>\<open>true\<close> and reports position \<open>j + 1\<close> of \<open>length txs\<close>. On the way it has
  computed the normalized hash of the root message and then of the external-in
  inbound messages of the first \<open>j + 1\<close> transactions, in list order, and no other; in
  verbose mode it has written one line for each of the candidates \<open>1\<close> to \<open>j + 1\<close>.
  With \<open>j + 1 = length txs\<close>, only the last transaction matching, all of the list
  is examined and the position is its length.
\<close>

theorem first_match_found:
  assumes c: "fromBase64 lib (boc config) = Inr c"
    and m: "loadMessage lib c = Inr m"
    and i: "info m = ExternalIn s d f"
    and h: "getNormalizedExtMessageHash lib m = Inr h"
    and txs: "gt (client_of config) d (limit config) True = Inr txs"
    and j: "j < length txs"
    and hit: "matches lib h (txs ! j)"
    and first: "\<forall>k<j. \<not> matches lib h (txs ! k)"
  shows "snd (verifyBoc lib gt config) = True \<and>
         filter is_position (fst (verifyBoc lib gt config)) =
           [Log (Position (j + 1) (length txs))] \<and>
         filter is_hash_call (fst (verifyBoc lib gt config)) =
           HashCall m # map HashCall (ext_in_messages (take (j + 1) txs)) \<and>
         filter is_candidate (fst (verifyBoc lib gt config)) =
           (if verbose config then map (candidate_line txs) [0..<j + 1] else [])"
proof -
  from j have ne: "txs \<noteq> []" by auto
  have S: "snd (search lib config h txs 0) = Inr (Some True) \<and>
         filter is_hash_call (fst (search lib config h txs 0)) =
           map HashCall (ext_in_messages (drop 0 (take (Suc j) txs))) \<and>
         filter is_position (fst (search lib config h txs 0)) =
           [Log (Position (Suc j) (length txs))] \<and>
         filter is_candidate (fst (search lib config h txs 0)) =
           (if verbose config then map (candidate_line txs) [0..<Suc j] else [])"
    using j hit first by (intro search_first_match) auto
  have T: "verifyBoc_try lib gt config =
             (before_fetch config m d h @ [Log (FoundCount (length txs)), Log Searching] @
              fst (search lib config h txs 0), Inr True)"
    using S by (simp add: try_searched [where gt = gt, OF c m i h txs ne] searched_found)
  show ?thesis
    using S by (simp add: verifyBoc_result verifyBoc_keeps T del: upt_Suc)
qed


theorem first_match_found_witness:
  "snd (verifyBoc demo_core demo_fetch (demo_config\<lparr>verbose := True\<rparr>)) = True \<and>
   filter is_position (fst (verifyBoc demo_core demo_fetch (demo_config\<lparr>verbose := True\<rparr>))) =
     [Log (Position 4 4)] \<and>
   filter is_hash_call (fst (verifyBoc demo_core demo_fetch (demo_config\<lparr>verbose := True\<rparr>))) =
     [HashCall demo_ext_message,
      HashCall \<lparr>info = ExternalIn None demo_address 0, init = None, body = Cell [False] []\<rparr>,
      HashCall \<lparr>info = ExternalIn None demo_address 0, init = None,
                body = Cell [True, True, False] []\<rparr>] \<and>
   filter is_candidate (fst (verifyBoc demo_core demo_fetch (demo_config\<lparr>verbose := True\<rparr>))) =
     [Log (Candidate 1 4 1 100), Log (Candidate 2 4 2 200), Log (Candidate 3 4 3 300),
      Log (Candidate 4 4 4 400)]"
proof -
  let ?config = "demo_config\<lparr>verbose := True\<rparr>"
  have c: "fromBase64 demo_core (boc ?config) = Inr (Cell [True] [])"
    by (simp add: demo_config_def demo_decode)
  have j: "3 < length demo_transactions"
    by (simp add: demo_transactions_def)
  have hit: "matches demo_core 635 (demo_transactions ! 3)"
    by (simp add: demo_transactions_def demo_matches)
  have first: "\<forall>k<3. \<not> matches demo_core 635 (demo_transactions ! k)"
  proof (intro allI impI)
    fix k :: nat
    assume "k < 3"
    then have "k = 0 \<or> k = 1 \<or> k = 2" by arith
    then show "\<not> matches demo_core 635 (demo_transactions ! k)"
      by (auto simp: demo_transactions_def demo_matches)
  qed
  have upt: "[0..<3 + 1] = [0, 1, 2, 3::nat]"
    by (simp add: upt_rec)
  have tk: "take (3 + 1) demo_transactions = demo_transactions"
    by (simp add: demo_transactions_def)
  have v: "verbose ?config"
    by simp
  have ext: "ext_in_messages demo_transactions =
      [\<lparr>info = ExternalIn None demo_address 0, init = None, body = Cell [False] []\<rparr>,
       \<lparr>info = ExternalIn None demo_address 0, init = None,
         body = Cell [True, True, False] []\<rparr>]"
    by (simp add: ext_in_messages_def demo_transactions_def demo_ext_in)
  have cand: "map (candidate_line demo_transactions) [0, 1, 2, 3] =
      [Log (Candidate 1 4 1 100), Log (Candidate 2 4 2 200), Log (Candidate 3 4 3 300),
       Log (Candidate 4 4 4 400)]"
    by (simp add: candidate_line_def demo_transactions_def demo_tx_absent_def
        demo_tx_internal_def demo_tx_other_def demo_tx_match_def)
  have len: "length demo_transactions = 4"
    by (simp add: demo_transactions_def)
  show ?thesis
    using first_match_found [where gt = demo_fetch, OF c demo_decode(2) demo_info(1) demo_hash
        demo_fetch_mainnet [of True] j hit first]
    unfolding upt tk ext cand len
    by (simp add: v)
qed

lemma search_hash_calls:
  "\<exists>k\<le>length txs. filter is_hash_call (fst (search lib config h txs i)) =
     map HashCall (ext_in_messages (drop i (take k txs)))"
proof (cases "\<exists>j. i \<le> j \<and> j < length txs \<and> matches lib h (txs ! j)")
  case True
  then obtain j where j: "i \<le> j \<and> j < length txs \<and> matches lib h (txs ! j)"
    and least: "\<forall>k<j. \<not> (i \<le> k \<and> k < length txs \<and> matches lib h (txs ! k))"
    using exists_least_iff [of "\<lambda>j. i \<le> j \<and> j < length txs \<and> matches lib h (txs ! j)"]
    by blast
  from j least have "\<forall>k. i \<le> k \<and> k < j \<longrightarrow> \<not> matches lib h (txs ! k)"
    by auto
  with j have "filter is_hash_call (fst (search lib config h txs i)) =
           map HashCall (ext_in_messages (drop i (take (Suc j) txs)))"
    using search_first_match [of i j txs lib h config] by blast
  moreover from j have "Suc j \<le> length txs" by simp
  ultimately show ?thesis by blast
next
  case False
  then have "\<forall>k. i \<le> k \<and> k < length txs \<longrightarrow> \<not> matches lib h (txs ! k)"
    by blast
  then have "filter is_hash_call (fst (search lib config h txs i)) =
           map HashCall (ext_in_messages (drop i (take (length txs) txs)))"
    using search_no_match [of i txs lib h config] by simp
  then show ?thesis by blast
qed

lemma ext_in_message_member:
  "m \<in> set (ext_in_message tx) \<longleftrightarrow>
     inMessage tx = Some m \<and> info_type (info m) = ''external-in''"
  by (auto simp: ext_in_message_def split: option.splits)

lemma hash_call_member:
  assumes "HashCall m \<in> set (fst (search lib config h txs i))"
  shows "info_type (info m) = ''external-in'' \<and>
         (\<exists>k. i \<le> k \<and> k < length txs \<and> inMessage (txs ! k) = Some m)"
proof -
  obtain k where k: "k \<le> length txs"
    and eq: "filter is_hash_call (fst (search lib config h txs i)) =
               map HashCall (ext_in_messages (drop i (take k txs)))"
    using search_hash_calls by blast
  from assms have "HashCall m \<in> set (filter is_hash_call (fst (search lib config h txs i)))"
    by simp
  with eq have "m \<in> set (ext_in_messages (drop i (take k txs)))"
    by auto
  then obtain tx where tx: "tx \<in> set (drop i (take k txs))" and m: "m \<in> set (ext_in_message tx)"
    by (auto simp: ext_in_messages_def)
  from tx obtain n where n: "n < length (drop i (take k txs))" and "tx = drop i (take k txs) ! n"
    by (auto simp: in_set_conv_nth)
  with k have "tx = txs ! (i + n)" and "i + n < length txs"
    by auto
  with m have "inMessage (txs ! (i + n)) = Some m" and "info_type (info m) = ''external-in''"
    by (simp_all add: ext_in_message_member)
  with \<open>i + n < length txs\<close> show ?thesis
    by (intro conjI exI [of _ "i + n"]) simp_all
qed

lemma demo_search_3:
  "search demo_core demo_config 635 demo_transactions 3 =
     ([HashCall \<lparr>info = ExternalIn None demo_address 0, init = None,
                 body = Cell [True, True, False] []\<rparr>] @
      found_report 3 demo_transactions demo_tx_match demo_address, Inr (Some True))"
  by (subst search.simps)
    (simp add: demo_transactions_def demo_tx_match_def getNormalizedExtMessageHash_def
      demo_core_def demo_address_def vlog_def demo_config_def Let_def)

text \<open>
  C5. In the search loop, a transaction whose inbound message is absent, or present
  with an info variant other than external-in, contributes nothing but the two lines of
  verbose mode, and the loop goes on with the next index. The loop never throws.
  Every call of the normalized hash made in the loop has for argument the inbound
  message of one of the transactions, and that message is external-in.
\<close>

theorem non_external_in_skipped:
  "(i < length txs \<and>
      (inMessage (txs ! i) = None \<or>
       (\<exists>m. inMessage (txs ! i) = Some m \<and> info_type (info m) \<noteq> ''external-in'')) \<longrightarrow>
      search lib config h txs i =
        prepend (vlog config (Candidate (i + 1) (length txs) (lt (txs ! i)) (now (txs ! i))) @
                 vlog config Skipped)
          (search lib config h txs (i + 1))) \<and>
   (\<forall>e. snd (search lib config h txs i) \<noteq> Inl e) \<and>
   (\<forall>m. HashCall m \<in> set (fst (search lib config h txs i)) \<longrightarrow>
      info_type (info m) = ''external-in'' \<and>
      (\<exists>k. i \<le> k \<and> k < length txs \<and> inMessage (txs ! k) = Some m))"
proof (intro conjI impI allI)
  assume a: "i < length txs \<and>
      (inMessage (txs ! i) = None \<or>
       (\<exists>m. inMessage (txs ! i) = Some m \<and> info_type (info m) \<noteq> ''external-in''))"
  then have len: "i < length txs" and none: "ext_in_message (txs ! i) = []"
    by (auto simp: ext_in_message_def)
  from len show "search lib config h txs i =
        prepend (vlog config (Candidate (i + 1) (length txs) (lt (txs ! i)) (now (txs ! i))) @
                 vlog config Skipped)
          (search lib config h txs (i + 1))"
  proof (cases rule: search_cases [where lib = lib and h = h and config = config])
    case skip
    then show ?thesis by simp
  next
    case (mismatch m)
    with none show ?thesis by simp
  next
    case (match m d)
    with none show ?thesis by simp
  qed
next
  fix e show "snd (search lib config h txs i) \<noteq> Inl e"
    using search_quiet [of lib config h txs i] by blast
next
  fix m assume "HashCall m \<in> set (fst (search lib config h txs i))"
  then show "info_type (info m) = ''external-in''"
    and "\<exists>k. i \<le> k \<and> k < length txs \<and> inMessage (txs ! k) = Some m"
    by (simp_all add: hash_call_member)
qed

theorem non_external_in_skipped_witness:
  "inMessage (demo_transactions ! 1) = Some demo_int_message \<and>
   info_type (info demo_int_message) = ''internal'' \<and>
   search demo_core (demo_config\<lparr>verbose := True\<rparr>) 635 demo_transactions 1 =
     prepend [Log (Candidate 2 4 2 200), Log Skipped]
       (search demo_core (demo_config\<lparr>verbose := True\<rparr>) 635 demo_transactions (1 + 1)) \<and>
   (\<nexists>e. snd (search demo_core demo_config 635 demo_transactions 3) = Inl e) \<and>
   HashCall \<lparr>info = ExternalIn None demo_address 0, init = None,
             body = Cell [True, True, False] []\<rparr>
     \<in> set (fst (search demo_core demo_config 635 demo_transactions 3)) \<and>
   info_type (info \<lparr>info = ExternalIn None demo_address 0, init = None,
                     body = Cell [True, True, False] []\<rparr>) = ''external-in''"
proof -
  let ?v = "demo_config\<lparr>verbose := True\<rparr>"
  let ?m = "\<lparr>info = ExternalIn None demo_address 0, init = None,
             body = Cell [True, True, False] []\<rparr>"
  have a: "inMessage (demo_transactions ! 1) = Some demo_int_message"
    by (simp add: demo_transactions_def demo_tx_internal_def)
  have b: "info_type (info demo_int_message) = ''internal''"
    by (simp add: demo_int_message_def)
  have c: "(1::nat) < length demo_transactions"
    by (simp add: demo_transactions_def)
  have d: "vlog ?v (Candidate (1 + 1) (length demo_transactions) (lt (demo_transactions ! 1))
                      (now (demo_transactions ! 1))) @ vlog ?v Skipped =
           [Log (Candidate 2 4 2 200), Log Skipped]"
    by (simp add: vlog_def demo_transactions_def demo_tx_internal_def)
  have hyp: "1 < length demo_transactions \<and>
      (inMessage (demo_transactions ! 1) = None \<or>
       (\<exists>m. inMessage (demo_transactions ! 1) = Some m \<and>
            info_type (info m) \<noteq> ''external-in''))"
  proof (intro conjI disjI2 exI [of _ demo_int_message])
    show "1 < length demo_transactions" by (rule c)
    show "inMessage (demo_transactions ! 1) = Some demo_int_message" by (rule a)
    show "info_type (info demo_int_message) \<noteq> ''external-in''" by (simp add: b)
  qed
  have f: "HashCall ?m \<in> set (fst (search demo_core demo_config 635 demo_transactions 3))"
    by (simp add: demo_search_3)
  note skip = non_external_in_skipped [of 1 demo_transactions demo_core ?v 635]
  note at3 = non_external_in_skipped [of 3 demo_transactions demo_core demo_config 635]
  have g: "search demo_core ?v 635 demo_transactions 1 =
     prepend [Log (Candidate 2 4 2 200), Log Skipped]
       (search demo_core ?v 635 demo_transactions (1 + 1))"
    using skip [THEN conjunct1, THEN mp, OF hyp] unfolding d .
  have h: "\<nexists>e. snd (search demo_core demo_config 635 demo_transactions 3) = Inl e"
    using at3 [THEN conjunct2, THEN conjunct1] by simp
  have k: "info_type (info ?m) = ''external-in''"
    using at3 [THEN conjunct2, THEN conjunct2, THEN spec, THEN mp, OF f] by (rule conjunct1)
  show ?thesis
    by (intro conjI) (rule a b g h f k)+
qed

lemma demo_fetch_testnet:
  "demo_fetch (client_of (demo_config\<lparr>network := Some ''testnet''\<rparr>)) demo_address
     (limit (demo_config\<lparr>network := Some ''testnet''\<rparr>)) True = Inr []"
  by (simp add: demo_fetch_def client_of_def demo_config_def endpoint_of_def ENDPOINTS_def)

lemma searched_keeps:
  assumes "filter P (not_found_report config) = []"
  shows "filter P (fst (case search lib config h txs 0 of
            (t, Inl e) \<Rightarrow> (t, Inl e)
          | (t, Inr (Some r)) \<Rightarrow> (t, Inr r)
          | (t, Inr None) \<Rightarrow> (t @ not_found_report config, Inr False))) =
         filter P (fst (search lib config h txs 0))"
  using assms
  by (cases "search lib config h txs 0") (auto split: sum.splits option.splits)

lemma try_fetches:
  "filter is_fetch (fst (verifyBoc_try lib gt config)) = [] \<or>
   (\<exists>d. filter is_fetch (fst (verifyBoc_try lib gt config)) =
          [GetTransactions (client_of config) d (limit config) True])"
proof (cases rule: verifyBoc_try_cases [where lib = lib and gt = gt and config = config])
  case (malformed e)
  then show ?thesis by (simp add: try_malformed)
next
  case (unloadable c e)
  then show ?thesis by (simp add: try_unloadable)
next
  case (unsupported c m)
  then show ?thesis by (simp add: try_unsupported)
next
  case (fetch_failed c m s d f h e)
  then show ?thesis by (simp add: try_fetch_failed [where gt = gt])
next
  case (fetched c m s d f h txs)
  show ?thesis
  proof (cases "txs = []")
    case True
    with fetched show ?thesis by (simp add: try_empty [where gt = gt])
  next
    case False
    with fetched show ?thesis
      using search_quiet [of lib config h txs 0]
      by (simp add: try_searched [where gt = gt] searched_keeps)
  qed
qed

text \<open>
  C6. When the container decodes to an external-in message and the fetch returns no
  transaction, the verifier returns \<^verbatim>\<open>false\<close> right after the line that says no
  transactions were found. Nothing is thrown and nothing is written by
  \<^verbatim>\<open>console.error\<close>.
\<close>

theorem empty_fetch_not_found:
  assumes "fromBase64 lib (boc config) = Inr c"
    and "loadMessage lib c = Inr m"
    and "info m = ExternalIn s d f"
    and "getNormalizedExtMessageHash lib m = Inr h"
    and "gt (client_of config) d (limit config) True = Inr []"
  shows "verifyBoc lib gt config =
           (before_fetch config m d h @ [Log (FoundCount 0), Log NoTransactions], False) \<and>
         filter is_error (fst (verifyBoc lib gt config)) = []"
  using assms
  by (simp add: verifyBoc_def try_empty [where gt = gt])

theorem empty_fetch_not_found_witness:
  "verifyBoc demo_core demo_fetch (demo_config\<lparr>network := Some ''testnet''\<rparr>) =
     (before_fetch (demo_config\<lparr>network := Some ''testnet''\<rparr>) demo_ext_message demo_address 635 @
      [Log (FoundCount 0), Log NoTransactions], False) \<and>
   filter is_error
     (fst (verifyBoc demo_core demo_fetch (demo_config\<lparr>network := Some ''testnet''\<rparr>))) = []"
proof -
  let ?config = "demo_config\<lparr>network := Some ''testnet''\<rparr>"
  have c: "fromBase64 demo_core (boc ?config) = Inr (Cell [True] [])"
    by (simp add: demo_config_def demo_decode)
  show ?thesis
    by (rule empty_fetch_not_found [where gt = demo_fetch, OF c demo_decode(2) demo_info(1)
          demo_hash demo_fetch_testnet])
qed

lemma fetched_once:
  assumes "fromBase64 lib (boc config) = Inr c" and "loadMessage lib c = Inr m"
    and "info m = ExternalIn s d f" and "getNormalizedExtMessageHash lib m = Inr h"
    and "gt (client_of config) d (limit config) True = Inr txs"
  shows "filter is_fetch (fst (verifyBoc lib gt config)) =
           [GetTransactions (client_of config) d (limit config) True]"
proof -
  have keep: "filter is_fetch (fst (verifyBoc lib gt config)) =
              filter is_fetch (fst (verifyBoc_try lib gt config))"
    by (rule verifyBoc_keeps) simp
  show ?thesis
  proof (cases "txs = []")
    case True
    with assms show ?thesis
      unfolding keep by (simp add: try_empty [where gt = gt])
  next
    case False
    with assms show ?thesis
      unfolding keep using search_quiet [of lib config h txs 0]
      by (simp add: try_searched [where gt = gt] searched_keeps)
  qed
qed

text \<open>
  C7. In any run of the verifier the fetch collaborator is called at most once, and a
  call it receives is the one for the destination of the decoded message with the
  configured limit and \<^verbatim>\<open>archival: true\<close>. It is not called at all when
  \<^verbatim>\<open>Cell.fromBase64\<close> throws, when \<^verbatim>\<open>loadMessage\<close> throws, or when the decoded
  message is not external-in.
\<close>

theorem fetch_at_most_once:
  "length (filter is_fetch (fst (verifyBoc lib gt config))) \<le> 1 \<and>
   (\<forall>e \<in> set (filter is_fetch (fst (verifyBoc lib gt config))).
      \<exists>d. e = GetTransactions (client_of config) d (limit config) True) \<and>
   ((\<exists>e. fromBase64 lib (boc config) = Inl e) \<longrightarrow>
      filter is_fetch (fst (verifyBoc lib gt config)) = []) \<and>
   (\<forall>c. fromBase64 lib (boc config) = Inr c \<and> (\<exists>e. loadMessage lib c = Inl e) \<longrightarrow>
      filter is_fetch (fst (verifyBoc lib gt config)) = []) \<and>
   (\<forall>c m. fromBase64 lib (boc config) = Inr c \<and> loadMessage lib c = Inr m \<and>
      info_type (info m) \<noteq> ''external-in'' \<longrightarrow>
      filter is_fetch (fst (verifyBoc lib gt config)) = [])"
proof -
  have keep: "filter is_fetch (fst (verifyBoc lib gt config)) =
              filter is_fetch (fst (verifyBoc_try lib gt config))"
    by (rule verifyBoc_keeps) simp
  show ?thesis
    unfolding keep
  proof (intro conjI allI impI ballI)
    show "length (filter is_fetch (fst (verifyBoc_try lib gt config))) \<le> 1"
      using try_fetches [of lib gt config] by auto
  next
    fix e assume e: "e \<in> set (filter is_fetch (fst (verifyBoc_try lib gt config)))"
    consider "filter is_fetch (fst (verifyBoc_try lib gt config)) = []"
      | d where "filter is_fetch (fst (verifyBoc_try lib gt config)) =
                   [GetTransactions (client_of config) d (limit config) True]"
      using try_fetches [of lib gt config] by blast
    then show "\<exists>d. e = GetTransactions (client_of config) d (limit config) True"
    proof cases
      case 1
      from e have "e \<in> set []" unfolding 1 .
      then show ?thesis by simp
    next
      case (2 d)
      from e have "e \<in> set [GetTransactions (client_of config) d (limit config) True]"
        unfolding 2 .
      then show ?thesis by simp
    qed
  next
    assume "\<exists>e. fromBase64 lib (boc config) = Inl e"
    then show "filter is_fetch (fst (verifyBoc_try lib gt config)) = []"
      by (auto simp: try_malformed)
  next
    fix c assume "fromBase64 lib (boc config) = Inr c \<and> (\<exists>e. loadMessage lib c = Inl e)"
    then show "filter is_fetch (fst (verifyBoc_try lib gt config)) = []"
      by (auto simp: try_unloadable)
  next
    fix c m assume "fromBase64 lib (boc config) = Inr c \<and> loadMessage lib c = Inr m \<and>
      info_type (info m) \<noteq> ''external-in''"
    then show "filter is_fetch (fst (verifyBoc_try lib gt config)) = []"
      by (auto simp: try_unsupported)
  qed
qed


theorem fetch_at_most_once_witness:
  "filter is_fetch (fst (verifyBoc demo_core demo_fetch demo_config)) =
     [GetTransactions (client_of demo_config) demo_address (Num 10) True] \<and>
   length (filter is_fetch (fst (verifyBoc demo_core demo_fetch demo_config))) \<le> 1 \<and>
   fromBase64 demo_core ''garbage'' = Inl (Error ''Invalid BOC'') \<and>
   filter is_fetch (fst (verifyBoc demo_core demo_fetch (demo_config\<lparr>boc := ''garbage''\<rparr>))) = [] \<and>
   fromBase64 demo_core ''raw'' = Inr (Cell [] []) \<and>
   loadMessage demo_core (Cell [] []) = Inl (Error ''Unknown message'') \<and>
   filter is_fetch (fst (verifyBoc demo_core demo_fetch (demo_config\<lparr>boc := ''raw''\<rparr>))) = [] \<and>
   fromBase64 demo_core ''int'' = Inr (Cell [False] []) \<and>
   loadMessage demo_core (Cell [False] []) = Inr demo_int_message \<and>
   info_type (info demo_int_message) = ''internal'' \<and>
   filter is_fetch (fst (verifyBoc demo_core demo_fetch (demo_config\<lparr>boc := ''int''\<rparr>))) = []"
proof -
  have c: "fromBase64 demo_core (boc demo_config) = Inr (Cell [True] [])"
    by (simp add: demo_config_def demo_decode)
  have fetch: "demo_fetch (client_of demo_config) demo_address (limit demo_config) True =
                 Inr demo_transactions"
    using demo_fetch_mainnet [of False] by (simp add: demo_config_def)
  have lim: "limit demo_config = Num 10"
    by (simp add: demo_config_def)
  have one: "filter is_fetch (fst (verifyBoc demo_core demo_fetch demo_config)) =
     [GetTransactions (client_of demo_config) demo_address (Num 10) True]"
    using fetched_once [where gt = demo_fetch, OF c demo_decode(2) demo_info(1) demo_hash fetch]
    by (simp add: lim)
  have le: "length (filter is_fetch (fst (verifyBoc demo_core demo_fetch demo_config))) \<le> 1"
    using fetch_at_most_once [of demo_core demo_fetch demo_config] by (rule conjunct1)
  have g: "\<exists>e. fromBase64 demo_core (boc (demo_config\<lparr>boc := ''garbage''\<rparr>)) = Inl e"
    by (simp add: demo_decode)
  have r: "fromBase64 demo_core (boc (demo_config\<lparr>boc := ''raw''\<rparr>)) = Inr (Cell [] []) \<and>
           (\<exists>e. loadMessage demo_core (Cell [] []) = Inl e)"
    by (simp add: demo_decode)
  have i: "fromBase64 demo_core (boc (demo_config\<lparr>boc := ''int''\<rparr>)) = Inr (Cell [False] []) \<and>
           loadMessage demo_core (Cell [False] []) = Inr demo_int_message \<and>
           info_type (info demo_int_message) \<noteq> ''external-in''"
    by (simp add: demo_decode demo_info)
  note G = fetch_at_most_once [of demo_core demo_fetch "demo_config\<lparr>boc := ''garbage''\<rparr>"]
  note R = fetch_at_most_once [of demo_core demo_fetch "demo_config\<lparr>boc := ''raw''\<rparr>"]
  note I = fetch_at_most_once [of demo_core demo_fetch "demo_config\<lparr>boc := ''int''\<rparr>"]
  have g': "filter is_fetch
              (fst (verifyBoc demo_core demo_fetch (demo_config\<lparr>boc := ''garbage''\<rparr>))) = []"
    using G [THEN conjunct2, THEN conjunct2, THEN conjunct1, THEN mp, OF g] .
  have r': "filter is_fetch
              (fst (verifyBoc demo_core demo_fetch (demo_config\<lparr>boc := ''raw''\<rparr>))) = []"
    using R [THEN conjunct2, THEN conjunct2, THEN conjunct2, THEN conjunct1, THEN spec,
        THEN mp, OF r] .
  have i': "filter is_fetch
              (fst (verifyBoc demo_core demo_fetch (demo_config\<lparr>boc := ''int''\<rparr>))) = []"
    using I [THEN conjunct2, THEN conjunct2, THEN conjunct2, THEN conjunct2, THEN spec,
        THEN spec, THEN mp, OF i] .
  show ?thesis
    by (intro conjI) (rule one le g' r' i' demo_decode demo_info)+
qed






















section \<open>The network argument\<close>

lemma notin_drop: "x \<notin> set (drop i xs) \<Longrightarrow> i \<le> j \<Longrightarrow> x \<notin> set (drop j xs)"
  using set_drop_subset_set_drop [of i j xs] by auto

lemma notin_drop_nth: "x \<notin> set (drop i xs) \<Longrightarrow> i < length xs \<Longrightarrow> xs ! i \<noteq> x"
  by (auto simp flip: Cons_nth_drop_Suc)

lemma parse_loop_keeps_network:
  "''--network'' \<notin> set (drop i args) \<Longrightarrow>
   network (parse_loop parseInt args i config) = network config"
proof (induction parseInt args i config rule: parse_loop.induct)
  case (1 parseInt args i config)
  show ?case
  proof (cases "i < length args")
    case False
    then show ?thesis by (subst parse_loop.simps) simp
  next
    case True
    have nn: "args ! i \<noteq> ''--network''"
      using "1.prems" True by (rule notin_drop_nth)
    have d1: "''--network'' \<notin> set (drop (i + 1) args)"
      using "1.prems" by (rule notin_drop) simp
    have d2: "''--network'' \<notin> set (drop (i + 2) args)"
      using "1.prems" by (rule notin_drop) simp
    note IH = "1.IH"(2-5) [OF True nn]
    show ?thesis
    proof (cases "args ! i = ''--api-key''")
      case a: True
      then show ?thesis
        using True nn IH(1) [OF a d2] by (subst parse_loop.simps) simp
    next
      case a: False
      show ?thesis
      proof (cases "args ! i = ''--limit''")
        case l: True
        then show ?thesis
          using True nn a IH(2) [OF a l d2] by (subst parse_loop.simps) simp
      next
        case l: False
        show ?thesis
        proof (cases "args ! i = ''--verbose''")
          case v: True
          then show ?thesis
            using True nn a l IH(3) [OF a l v d1] by (subst parse_loop.simps) simp
        next
          case v: False
          then show ?thesis
            using True nn a l IH(4) [OF a l v d1] by (subst parse_loop.simps) simp
        qed
      qed
    qed
  qed
qed

lemma parse_network_flag:
  assumes "b \<noteq> ''--help''" and "b \<noteq> ''-h''" and "''--network'' \<notin> set rest"
  shows "parseArgs parseInt (b # ''--network'' # v # rest) =
           ([], Inr (parse_loop parseInt (b # ''--network'' # v # rest) 3
                      \<lparr>boc = b, network = Some v, apiKey = None, limit = Num 10,
                       verbose = False\<rparr>)) \<and>
         network (parse_loop parseInt (b # ''--network'' # v # rest) 3
                      \<lparr>boc = b, network = Some v, apiKey = None, limit = Num 10,
                       verbose = False\<rparr>) = Some v"
proof -
  have step: "parse_loop parseInt (b # ''--network'' # v # rest) 1
          \<lparr>boc = b, network = Some ''mainnet'', apiKey = None, limit = Num 10, verbose = False\<rparr> =
        parse_loop parseInt (b # ''--network'' # v # rest) 3
          \<lparr>boc = b, network = Some v, apiKey = None, limit = Num 10, verbose = False\<rparr>"
    by (subst parse_loop.simps) (simp add: arg_at_def numeral_3_eq_3)
  have d3: "drop 3 (b # ''--network'' # v # rest) = rest"
    by (simp add: numeral_3_eq_3)
  have rest: "''--network'' \<notin> set (drop 3 (b # ''--network'' # v # rest))"
    unfolding d3 by (rule assms(3))
  have pa: "parseArgs parseInt (b # ''--network'' # v # rest) =
              ([], Inr (parse_loop parseInt (b # ''--network'' # v # rest) 1
                         \<lparr>boc = b, network = Some ''mainnet'', apiKey = None, limit = Num 10,
                          verbose = False\<rparr>))"
    using assms(1,2) by (simp add: parseArgs_def)
  show ?thesis
    unfolding pa step by (simp add: parse_loop_keeps_network [OF rest])
qed

lemma clients_once:
  assumes "fromBase64 lib (boc config) = Inr c" and "loadMessage lib c = Inr m"
    and "info m = ExternalIn s d f"
  shows "filter is_client (fst (verifyBoc lib gt config)) = [NewTonClient (client_of config)]"
proof -
  have keep: "filter is_client (fst (verifyBoc lib gt config)) =
              filter is_client (fst (verifyBoc_try lib gt config))"
    by (rule verifyBoc_keeps) simp
  obtain h where h: "getNormalizedExtMessageHash lib m = Inr h"
    using hash_total [OF assms(3)] by blast
  show ?thesis
  proof (cases "gt (client_of config) d (limit config) True")
    case (Inl e)
    with assms h show ?thesis
      unfolding keep by (simp add: try_fetch_failed [where gt = gt])
  next
    case (Inr txs)
    show ?thesis
    proof (cases "txs = []")
      case True
      with assms h Inr show ?thesis
        unfolding keep by (simp add: try_empty [where gt = gt])
    next
      case False
      with assms h Inr show ?thesis
        unfolding keep using search_quiet [of lib config h txs 0]
        by (simp add: try_searched [where gt = gt] searched_keeps)
    qed
  qed
qed

lemma endpoint_of_cases:
  "endpoint_of (Some v) =
     (if v = ''mainnet'' then Str ''https://toncenter.com/api/v2/jsonRPC''
      else if v = ''testnet'' then Str ''https://testnet.toncenter.com/api/v2/jsonRPC''
      else if v \<in> set Object_prototype then Inherited v
      else Undefined)"
  by (simp add: endpoint_of_def ENDPOINTS_def)

text \<open>
  C10, as stated, says that every value of \<^verbatim>\<open>--network\<close> other than \<open>''mainnet''\<close>
  and \<open>''testnet''\<close> makes the endpoint \<^verbatim>\<open>undefined\<close>. For the value
  \<open>''constructor''\<close> the argument is accepted and the read \<^verbatim>\<open>ENDPOINTS[config.network]\<close>
  gives the member inherited from \<^verbatim>\<open>Object.prototype\<close>, not \<^verbatim>\<open>undefined\<close>.
\<close>

theorem network_constructor_not_undefined:
  "''constructor'' \<noteq> ''mainnet'' \<and> ''constructor'' \<noteq> ''testnet'' \<and>
   parseArgs demo_parseInt [''ext'', ''--network'', ''constructor''] =
     ([], Inr (demo_config\<lparr>network := Some ''constructor''\<rparr>)) \<and>
   endpoint_of (network (demo_config\<lparr>network := Some ''constructor''\<rparr>)) =
     Inherited ''constructor'' \<and>
   endpoint_of (network (demo_config\<lparr>network := Some ''constructor''\<rparr>)) \<noteq> Undefined"
proof -
  have p: "parseArgs demo_parseInt [''ext'', ''--network'', ''constructor''] =
     ([], Inr (demo_config\<lparr>network := Some ''constructor''\<rparr>))"
    by (simp add: parseArgs_def parse_loop.simps demo_config_def arg_at_def)
  have e: "endpoint_of (Some ''constructor'') = Inherited ''constructor''"
    by (simp add: endpoint_of_cases Object_prototype_def)
  show ?thesis
    by (simp add: p e)
qed

text \<open>
  C10, amended. A command line \<^verbatim>\<open><BOC> --network v ...\<close> with no later
  \<^verbatim>\<open>--network\<close> is accepted by \<^verbatim>\<open>parseArgs\<close> for every string \<open>v\<close>, and the
  configuration holds \<open>v\<close> as its network. When \<open>v\<close> is neither \<open>''mainnet''\<close> nor
  \<open>''testnet''\<close> nor the name of a member of \<^verbatim>\<open>Object.prototype\<close>, the endpoint read
  from \<^verbatim>\<open>ENDPOINTS\<close> is \<^verbatim>\<open>undefined\<close>; for the name of such a member it is that
  inherited member. In a run that decodes an external-in message, the verifier
  constructs its one client with that endpoint.
\<close>

theorem network_argument_unchecked:
  assumes "b \<noteq> ''--help''" and "b \<noteq> ''-h''" and "''--network'' \<notin> set rest"
  shows "\<exists>config.
           parseArgs parseInt (b # ''--network'' # v # rest) = ([], Inr config) \<and>
           network config = Some v \<and>
           (v \<noteq> ''mainnet'' \<and> v \<noteq> ''testnet'' \<and> v \<notin> set Object_prototype \<longrightarrow>
              endpoint_of (network config) = Undefined) \<and>
           (v \<in> set Object_prototype \<longrightarrow> endpoint_of (network config) = Inherited v) \<and>
           (\<forall>c m s d f.
              fromBase64 lib (boc config) = Inr c \<and> loadMessage lib c = Inr m \<and>
              info m = ExternalIn s d f \<longrightarrow>
              filter is_client (fst (verifyBoc lib gt config)) =
                [NewTonClient \<lparr>endpoint = endpoint_of (Some v), client_apiKey = apiKey config\<rparr>])"
proof -
  let ?config = "parse_loop parseInt (b # ''--network'' # v # rest) 3
                   \<lparr>boc = b, network = Some v, apiKey = None, limit = Num 10, verbose = False\<rparr>"
  note p = parse_network_flag [OF assms, of parseInt v]
  have n: "network ?config = Some v"
    using p by (rule conjunct2)
  have proto: "''mainnet'' \<notin> set Object_prototype" "''testnet'' \<notin> set Object_prototype"
    by (simp_all add: Object_prototype_def)
  show ?thesis
  proof (intro exI [of _ ?config] conjI allI impI)
    show "parseArgs parseInt (b # ''--network'' # v # rest) = ([], Inr ?config)"
      using p by (rule conjunct1)
    show "network ?config = Some v" by (rule n)
    show "endpoint_of (network ?config) = Undefined"
      if "v \<noteq> ''mainnet'' \<and> v \<noteq> ''testnet'' \<and> v \<notin> set Object_prototype"
      using that unfolding n by (simp add: endpoint_of_cases)
    show "endpoint_of (network ?config) = Inherited v" if "v \<in> set Object_prototype"
      using that proto unfolding n by (auto simp: endpoint_of_cases)
    show "filter is_client (fst (verifyBoc lib gt ?config)) =
            [NewTonClient \<lparr>endpoint = endpoint_of (Some v), client_apiKey = apiKey ?config\<rparr>]"
      if "fromBase64 lib (boc ?config) = Inr c \<and> loadMessage lib c = Inr m \<and>
          info m = ExternalIn s d f" for c m s d f
      using that clients_once [where gt = gt and lib = lib and config = ?config]
      by (auto simp: client_of_def n)
  qed
qed

theorem network_argument_unchecked_witness:
  "parseArgs demo_parseInt [''ext'', ''--network'', ''devnet''] =
     ([], Inr (demo_config\<lparr>network := Some ''devnet''\<rparr>)) \<and>
   endpoint_of (network (demo_config\<lparr>network := Some ''devnet''\<rparr>)) = Undefined \<and>
   filter is_client
     (fst (verifyBoc demo_core demo_fetch (demo_config\<lparr>network := Some ''devnet''\<rparr>))) =
     [NewTonClient \<lparr>endpoint = Undefined, client_apiKey = None\<rparr>] \<and>
   parseArgs demo_parseInt [''ext'', ''--network'', ''toString''] =
     ([], Inr (demo_config\<lparr>network := Some ''toString''\<rparr>)) \<and>
   endpoint_of (network (demo_config\<lparr>network := Some ''toString''\<rparr>)) = Inherited ''toString''"
proof -
  let ?D = "demo_config\<lparr>network := Some ''devnet''\<rparr>"
  let ?S = "demo_config\<lparr>network := Some ''toString''\<rparr>"
  have b: "''ext'' \<noteq> ''--help''" "''ext'' \<noteq> ''-h''" "''--network'' \<notin> set []"
    by simp_all
  have pd: "parseArgs demo_parseInt [''ext'', ''--network'', ''devnet''] = ([], Inr ?D)"
    by (simp add: parseArgs_def parse_loop.simps demo_config_def arg_at_def)
  have ps: "parseArgs demo_parseInt [''ext'', ''--network'', ''toString''] = ([], Inr ?S)"
    by (simp add: parseArgs_def parse_loop.simps demo_config_def arg_at_def)
  have vd: "''devnet'' \<noteq> ''mainnet'' \<and> ''devnet'' \<noteq> ''testnet'' \<and>
            ''devnet'' \<notin> set Object_prototype"
    by (simp add: Object_prototype_def)
  have vs: "''toString'' \<in> set Object_prototype"
    by (simp add: Object_prototype_def)
  have dec: "fromBase64 demo_core (boc ?D) = Inr (Cell [True] []) \<and>
             loadMessage demo_core (Cell [True] []) = Inr demo_ext_message \<and>
             info demo_ext_message =
               ExternalIn (Some \<lparr>ext_bits = 8, ext_number = 5\<rparr>) demo_address 3"
  proof (intro conjI)
    show "fromBase64 demo_core (boc ?D) = Inr (Cell [True] [])"
      by (simp add: demo_config_def demo_decode)
  qed (rule demo_decode(2) demo_info(1))+
  have key: "apiKey ?D = None"
    by (simp add: demo_config_def)
  obtain config where
    c1: "parseArgs demo_parseInt [''ext'', ''--network'', ''devnet''] = ([], Inr config)"
    and c2: "''devnet'' \<noteq> ''mainnet'' \<and> ''devnet'' \<noteq> ''testnet'' \<and>
             ''devnet'' \<notin> set Object_prototype \<longrightarrow> endpoint_of (network config) = Undefined"
    and c3: "\<forall>c m s d f.
              fromBase64 demo_core (boc config) = Inr c \<and> loadMessage demo_core c = Inr m \<and>
              info m = ExternalIn s d f \<longrightarrow>
              filter is_client (fst (verifyBoc demo_core demo_fetch config)) =
                [NewTonClient \<lparr>endpoint = endpoint_of (Some ''devnet''),
                               client_apiKey = apiKey config\<rparr>]"
    using network_argument_unchecked [OF b, of demo_parseInt "''devnet''" demo_core demo_fetch]
    by blast
  from c1 pd have cd: "config = ?D" by simp
  have e1: "endpoint_of (network ?D) = Undefined"
    using c2 [THEN mp, OF vd] unfolding cd .
  have e1': "endpoint_of (Some ''devnet'') = Undefined"
    using e1 by simp
  have e2: "filter is_client (fst (verifyBoc demo_core demo_fetch ?D)) =
     [NewTonClient \<lparr>endpoint = Undefined, client_apiKey = None\<rparr>]"
    using c3 [unfolded cd, THEN spec, THEN spec, THEN spec, THEN spec, THEN spec, THEN mp, OF dec]
    unfolding e1' key .
  obtain config' where
    s1: "parseArgs demo_parseInt [''ext'', ''--network'', ''toString''] = ([], Inr config')"
    and s2: "''toString'' \<in> set Object_prototype \<longrightarrow>
             endpoint_of (network config') = Inherited ''toString''"
    using network_argument_unchecked [OF b, of demo_parseInt "''toString''" demo_core demo_fetch]
    by blast
  from s1 ps have cs: "config' = ?S" by simp
  have e3: "endpoint_of (network ?S) = Inherited ''toString''"
    using s2 [THEN mp, OF vs] unfolding cs .
  show ?thesis
    by (intro conjI) (rule pd e1 e2 ps e3)+
qed

section \<open>The normalized hash does not write to its argument\<close>

lemma read_info_append:
  "read_info h p = Some i \<Longrightarrow> read_info (h @ xs) p = Some i"
  by (auto simp: read_info_def nth_append split: if_splits)

lemma read_message_append:
  "read_message h p = Some m \<Longrightarrow> read_message (h @ xs) p = Some m"
  by (auto simp: read_message_def nth_append read_info_append
      split: if_splits js_object.splits option.splits)

lemma store_call:
  assumes "read_message h p = Some m"
  shows "\<exists>xs. getNormalizedExtMessageHash_store lib h p =
                Some (h @ xs, getNormalizedExtMessageHash lib m)"
proof -
  from assms obtain ip i b mi where
    p: "p < length h" and obj: "h ! p = MessageObject ip i b"
    and inf: "read_info h ip = Some mi" and m: "m = \<lparr>info = mi, init = i, body = b\<rparr>"
    by (auto simp: read_message_def split: if_splits js_object.splits option.splits)
  show ?thesis
  proof (cases mi)
    case (ExternalIn s d f)
    have new: "read_message (h @ [InfoObject (ExternalIn None d 0),
                               MessageObject (length h) None b]) (Suc (length h)) =
               Some \<lparr>info = ExternalIn None d 0, init = None, body = b\<rparr>"
      by (simp add: read_message_def read_info_def nth_append)
    have "getNormalizedExtMessageHash_store lib h p =
            Some (h @ [InfoObject (ExternalIn None d 0), MessageObject (length h) None b],
                  getNormalizedExtMessageHash lib m)"
      using p obj inf ExternalIn new
      by (simp add: getNormalizedExtMessageHash_store_def alloc_def m
          getNormalizedExtMessageHash_def)
    then show ?thesis by blast
  next
    case (Internal a1 a2 a3 a4 a5 a6 a7 a8 a9 a10)
    have "getNormalizedExtMessageHash_store lib h p =
            Some (h @ [], getNormalizedExtMessageHash lib m)"
      using p obj inf Internal
      by (simp add: getNormalizedExtMessageHash_store_def m getNormalizedExtMessageHash_def)
    then show ?thesis by blast
  next
    case (ExternalOut a1 a2 a3 a4)
    have "getNormalizedExtMessageHash_store lib h p =
            Some (h @ [], getNormalizedExtMessageHash lib m)"
      using p obj inf ExternalOut
      by (simp add: getNormalizedExtMessageHash_store_def m getNormalizedExtMessageHash_def)
    then show ?thesis by blast
  qed
qed

lemma demo_read:
  "read_message demo_objects 1 = Some demo_ext_message"
  "read_message demo_objects 2 = Some demo_ext_message"
  by (simp_all add: demo_objects_def read_message_def read_info_def demo_ext_message_def)

lemma demo_store_call:
  "getNormalizedExtMessageHash_store demo_core demo_objects 1 =
     Some (demo_objects @
           [InfoObject (ExternalIn None demo_address 0),
            MessageObject 3 None (Cell [True, True, False] [])], Inr 635)"
  by (simp add: getNormalizedExtMessageHash_store_def demo_objects_def read_info_def
      read_message_def alloc_def demo_core_def demo_address_def)

text \<open>
  C9. On the store of objects, a call of the function on the address \<open>p\<close> of a
  message returns what the function on values returns for that message, so the
  result depends on the members of the message only. The call leaves every object of
  the store as it was: the new store is the old one followed by the objects the call
  allocated, and the message at \<open>p\<close> reads as before. A call on the address \<open>q\<close> of
  an equal message, made after it, returns the same result.
\<close>

theorem normalized_hash_store_pure:
  assumes "read_message h p = Some m" and "read_message h q = Some m"
  shows "\<exists>h' h''.
           getNormalizedExtMessageHash_store lib h p =
             Some (h', getNormalizedExtMessageHash lib m) \<and>
           take (length h) h' = h \<and>
           read_message h' p = Some m \<and> read_message h' q = Some m \<and>
           getNormalizedExtMessageHash_store lib h' q =
             Some (h'', getNormalizedExtMessageHash lib m)"
proof -
  obtain xs where 1: "getNormalizedExtMessageHash_store lib h p =
                        Some (h @ xs, getNormalizedExtMessageHash lib m)"
    using store_call [OF assms(1)] by blast
  have p: "read_message (h @ xs) p = Some m" and q: "read_message (h @ xs) q = Some m"
    using assms by (simp_all add: read_message_append)
  obtain ys where 2: "getNormalizedExtMessageHash_store lib (h @ xs) q =
                        Some ((h @ xs) @ ys, getNormalizedExtMessageHash lib m)"
    using store_call [OF q] by blast
  show ?thesis
    by (intro exI [of _ "h @ xs"] exI [of _ "(h @ xs) @ ys"] conjI) (simp_all add: 1 2 p q)
qed

theorem normalized_hash_store_pure_witness:
  "read_message demo_objects 1 = Some demo_ext_message \<and>
   read_message demo_objects 2 = Some demo_ext_message \<and>
   getNormalizedExtMessageHash_store demo_core demo_objects 1 =
     Some (demo_objects @
           [InfoObject (ExternalIn None demo_address 0),
            MessageObject 3 None (Cell [True, True, False] [])], Inr 635) \<and>
   read_message
     (demo_objects @
      [InfoObject (ExternalIn None demo_address 0),
       MessageObject 3 None (Cell [True, True, False] [])]) 1 = Some demo_ext_message \<and>
   (\<exists>h''. getNormalizedExtMessageHash_store demo_core
      (demo_objects @
       [InfoObject (ExternalIn None demo_address 0),
        MessageObject 3 None (Cell [True, True, False] [])]) 2 = Some (h'', Inr 635))"
proof -
  obtain h' h'' where
    a: "getNormalizedExtMessageHash_store demo_core demo_objects 1 =
          Some (h', getNormalizedExtMessageHash demo_core demo_ext_message)"
    and b: "read_message h' 1 = Some demo_ext_message"
    and c: "getNormalizedExtMessageHash_store demo_core h' 2 =
          Some (h'', getNormalizedExtMessageHash demo_core demo_ext_message)"
    using normalized_hash_store_pure [OF demo_read, of demo_core] by blast
  from a have h': "h' = demo_objects @
           [InfoObject (ExternalIn None demo_address 0),
            MessageObject 3 None (Cell [True, True, False] [])]"
    unfolding demo_store_call by simp
  from c have c': "\<exists>h''. getNormalizedExtMessageHash_store demo_core h' 2 = Some (h'', Inr 635)"
    unfolding demo_hash by blast
  show ?thesis
    using b c' unfolding h' by (intro conjI) (rule demo_read demo_store_call | assumption)+
qed

end
